theory Spec2Isabelle
  imports Main
begin

section \<open>Data model of lib/client.js\<close>

text \<open>
  A storage node ("shark") as the placement code reads it: of the JSON record of a
  node, \<open>choose\<close> and the comparator use the three fields below. \<open>availableMB\<close> is
  documented as an integer number of megabytes.
\<close>

record shark =
  manta_storage_id :: string
  datacenter :: string
  availableMB :: int

text \<open>
  A JavaScript object that maps datacenter names to arrays of sharks is an association
  list in the order of \<open>Object.keys\<close> (the keys of an object are distinct);
  \<open>obj[k]\<close> is \<open>map_of obj k\<close>, and \<open>None\<close> is \<open>undefined\<close>.
\<close>

type_synonym sharkMap = "(string \<times> shark list) list"

text \<open>The exceptions the code can throw, and the errors of lib/errors.js.\<close>

datatype exn = TypeError | AssertionError

datatype error = NotEnoughSpaceError "int option" string | StandaloneModeError

text \<open>
  Reading \<open>xs[i]\<close> from a JavaScript array: \<open>undefined\<close> (here \<open>None\<close>) outside
  the array.
\<close>

definition nth_js :: "'a list \<Rightarrow> int \<Rightarrow> 'a option" where
  "nth_js xs i = (if 0 \<le> i \<and> i < int (length xs) then Some (xs ! nat i) else None)"

section \<open>lower_bound\<close>

text \<open>
  The \<open>while (low < high)\<close> loop of \<open>lower_bound\<close>. \<open>Math.floor(low + (high - low) / 2)\<close>
  is \<open>low + (high - low) div 2\<close> on integers; reading \<open>.availableMB\<close> of an
  \<open>undefined\<close> element throws a TypeError.
\<close>

function lower_bound_loop :: "shark list \<Rightarrow> int \<Rightarrow> int \<Rightarrow> int \<Rightarrow> exn + int" where
  "lower_bound_loop set' size' low high =
     (if low < high then
        (let mid = low + (high - low) div 2 in
         case nth_js set' mid of
           None \<Rightarrow> Inl TypeError
         | Some sh \<Rightarrow>
             if availableMB sh \<ge> size' then lower_bound_loop set' size' low mid
             else lower_bound_loop set' size' (mid + 1) high)
      else Inr low)"
  by pat_completeness auto
termination
  by (relation "measure (\<lambda>(set', size', low, high). nat (high - low))") auto

text \<open>
  \<open>lower_bound(set, size, low, high)\<close>. The arguments are optional where the source
  lets them be \<open>undefined\<close>: \<open>assert.arrayOfObject(set)\<close> and \<open>assert.number(size)\<close>
  throw an AssertionError, \<open>low || 0\<close> and \<open>high || set.length\<close> replace a missing
  (or zero) bound. The result is an index, or \<open>-1\<close>.
\<close>

definition lower_bound ::
  "shark list option \<Rightarrow> int option \<Rightarrow> int option \<Rightarrow> int option \<Rightarrow> exn + int" where
  "lower_bound set' size' low high =
     (case set' of
        None \<Rightarrow> Inl AssertionError
      | Some xs \<Rightarrow>
         (case size' of
            None \<Rightarrow> Inl AssertionError
          | Some sz \<Rightarrow>
             (let low0 = (case low of None \<Rightarrow> 0 | Some l \<Rightarrow> l);
                  high0 = (case high of None \<Rightarrow> int (length xs)
                           | Some h \<Rightarrow> if h = 0 then int (length xs) else h)
              in case lower_bound_loop xs sz low0 high0 of
                   Inl e \<Rightarrow> Inl e
                 | Inr l \<Rightarrow>
                    (case nth_js xs l of
                       None \<Rightarrow> Inr (- 1)
                     | Some sh \<Rightarrow> if availableMB sh < sz then Inr (- 1) else Inr l))))"

section \<open>Installing a topology\<close>

definition storageZoneComparator :: "shark \<Rightarrow> shark \<Rightarrow> int" where
  "storageZoneComparator a b =
     (if availableMB a < availableMB b then - 1
      else if availableMB a > availableMB b then 1
      else 0)"

text \<open>
  \<open>Array.prototype.sort(cmp)\<close>: a sort that orders by the comparator alone, written as
  a stable insertion sort (an element goes before the first one that it does not compare
  greater than). An engine whose sort is not stable may order sharks of equal
  \<open>availableMB\<close> differently; nothing below depends on their order.
\<close>

fun insert_js :: "('a \<Rightarrow> 'a \<Rightarrow> int) \<Rightarrow> 'a \<Rightarrow> 'a list \<Rightarrow> 'a list" where
  "insert_js cmp x [] = [x]"
| "insert_js cmp x (y # ys) = (if cmp x y \<le> 0 then x # y # ys else y # insert_js cmp x ys)"

definition sort_js :: "('a \<Rightarrow> 'a \<Rightarrow> int) \<Rightarrow> 'a list \<Rightarrow> 'a list" where
  "sort_js cmp xs = foldr (insert_js cmp) xs []"

text \<open>
  The fields of a \<open>StorinfoClient\<close> that the placement code reads and writes.
  \<open>None\<close> is \<open>null\<close> or \<open>undefined\<close>.
\<close>

record client =
  standalone :: bool
  dcSharkMap :: "sharkMap option"
  operatorDcSharkMap :: "sharkMap option"
  dcIndex :: int
  multiDC :: bool
  datacenters :: "string list option"
  operatorDatacenters :: "string list option"
  pollInterval :: "int option"
  defMaxSizeMB :: "int option"
  utilization :: "int option"

text \<open>
  \<open>sortAndStoreDcs.call(client, dcObj, opDcObj)\<close>: sorts every array of both objects,
  stores the key arrays and the objects. \<open>dcCount\<close> counts the iterations of
  \<open>dcs.forEach\<close>, so it is the number of keys.
\<close>

definition sortAndStoreDcs :: "client \<Rightarrow> sharkMap \<Rightarrow> sharkMap \<Rightarrow> client" where
  "sortAndStoreDcs c dcObj opDcObj =
     (let dcs = map fst dcObj;
          operatorDcs = map fst opDcObj;
          dcObj' = map (\<lambda>(k, v). (k, sort_js storageZoneComparator v)) dcObj;
          opDcObj' = map (\<lambda>(k, v). (k, sort_js storageZoneComparator v)) opDcObj;
          dcCount = length dcs;
          operatorDcCount = length operatorDcs
      in c\<lparr> datacenters := Some (if dcCount > 0 then dcs else []),
             operatorDatacenters := Some (if operatorDcCount > 0 then operatorDcs else []),
             dcSharkMap := Some dcObj',
             operatorDcSharkMap := Some opDcObj' \<rparr>)"

section \<open>Constructing a client\<close>

definition DEF_NUM_COPIES :: int where "DEF_NUM_COPIES = 2"
definition DEF_MAX_STREAMING_SIZE_MB :: int where "DEF_MAX_STREAMING_SIZE_MB = 5120"
definition DEF_MAX_PERCENT_UTIL :: int where "DEF_MAX_PERCENT_UTIL = 90"

text \<open>\<open>x || d\<close> for an optional number \<open>x\<close>: \<open>undefined\<close> and \<open>0\<close> are falsy.\<close>

definition or_default :: "int option \<Rightarrow> int \<Rightarrow> int" where
  "or_default x d = (case x of None \<Rightarrow> d | Some v \<Rightarrow> if v = 0 then d else v)"

record client_opts =
  opts_pollInterval :: "int option"
  opts_multiDC :: "bool option"
  opts_defaultMaxStreamingSizeMB :: "int option"
  opts_maxUtilizationPct :: "int option"
  opts_standalone :: bool

text \<open>
  The constructor. The logger and the HTTP client are left out. \<open>pollInterval\<close>,
  \<open>defMaxSizeMB\<close> and \<open>utilization\<close> are assigned only inside
  \<open>if (opts.pollInterval !== undefined && !opts.standalone)\<close>; \<open>operatorDatacenters\<close>
  is not assigned at all.
\<close>

definition StorinfoClient :: "client_opts \<Rightarrow> client" where
  "StorinfoClient opts =
     (let polling = (opts_pollInterval opts \<noteq> None \<and> \<not> opts_standalone opts)
      in \<lparr> standalone = opts_standalone opts,
           dcSharkMap = None,
           operatorDcSharkMap = None,
           dcIndex = - 1,
           multiDC = (case opts_multiDC opts of None \<Rightarrow> True | Some b \<Rightarrow> b),
           datacenters = None,
           operatorDatacenters = None,
           pollInterval =
             (if polling then map_option (\<lambda>p. p * 1000) (opts_pollInterval opts) else None),
           defMaxSizeMB =
             (if polling
              then Some (or_default (opts_defaultMaxStreamingSizeMB opts) DEF_MAX_STREAMING_SIZE_MB)
              else None),
           utilization =
             (if polling then Some (or_default (opts_maxUtilizationPct opts) DEF_MAX_PERCENT_UTIL)
              else None) \<rparr>)"

section \<open>Randomness\<close>

text \<open>
  \<open>Math.random()\<close> yields some \<open>u\<close> with \<open>0 \<le> u < 1\<close>, so
  \<open>Math.floor(Math.random() * k)\<close> is some integer of \<open>{0, ..., k - 1}\<close> when
  \<open>k > 0\<close>, and some integer of \<open>{k, ..., 0}\<close> when \<open>k \<le> 0\<close>. The entropy of one
  call is a list of naturals, one per call of \<open>Math.random\<close>, each selecting the
  element of that range; an exhausted list goes on with zeros.
\<close>

fun draw :: "nat list \<Rightarrow> nat \<times> nat list" where
  "draw [] = (0, [])"
| "draw (r # rs) = (r, rs)"

definition floor_random :: "nat \<Rightarrow> int \<Rightarrow> int" where
  "floor_random r k = (if 0 < k then int r mod k else - (int r mod (1 - k)))"

text \<open>
  \<open>shuffle(array)\<close>: \<open>i = Math.floor(Math.random() * m--)\<close> draws below the old \<open>m\<close>,
  then the elements at the new \<open>m\<close> and at \<open>i\<close> are swapped. The loop starts at
  \<open>m = array.length\<close>, so both indices are inside the array.
\<close>

fun shuffle_loop :: "nat \<Rightarrow> 'a list \<Rightarrow> nat list \<Rightarrow> 'a list \<times> nat list" where
  "shuffle_loop 0 array rs = (array, rs)"
| "shuffle_loop (Suc m) array rs =
     (case draw rs of (r, rs') \<Rightarrow>
        (let i = nat (floor_random r (int (Suc m)));
             t = array ! m
         in shuffle_loop m (array[m := array ! i, i := t]) rs'))"

definition shuffle :: "'a list \<Rightarrow> nat list \<Rightarrow> 'a list \<times> nat list" where
  "shuffle array rs = shuffle_loop (length array) array rs"

text \<open>
  \<open>random(min, max, skip)\<close> as \<open>choose\<close> calls it, with two arguments: \<open>skip\<close> is
  \<open>undefined\<close> and \<open>num === skip\<close> is false.
\<close>

definition random :: "nat \<Rightarrow> int \<Rightarrow> int \<Rightarrow> int" where
  "random r min' max' = floor_random r (max' - min' + 1) + min'"

section \<open>choose\<close>

record choose_opts =
  o_replicas :: "int option"
  o_size :: "int option"
  o_isOperator :: "bool option"

text \<open>
  What \<open>choose\<close> hands to its callback: the chosen sharks are pairs of a datacenter
  and a storage id; \<open>chooseStats\<close> refers to the arrays \<open>dcs\<close> and \<open>offsets\<close> (its
  \<open>db\<close> is the shark map of the client).
\<close>

record host_ref =
  hr_datacenter :: string
  hr_manta_storage_id :: string

record chooseStats =
  dcsInUse :: "string list"
  offsets :: "int list"

text \<open>
  A call of \<open>choose\<close> ends with an exception, with \<open>cb(err, null, chooseStats)\<close> or
  with \<open>cb(null, sharks, chooseStats)\<close>.
\<close>

datatype outcome =
    Throws exn
  | Callback_err error chooseStats
  | Callback_ok "host_ref list list" chooseStats

text \<open>
  \<open>var size = Math.ceil((opts.size || 0) / 1048576) || this.defMaxSizeMB\<close>, on an
  integer number of bytes: the ceiling of \<open>b / 1048576\<close> is \<open>- ((- b) div 1048576)\<close>.
\<close>

definition choose_size :: "client \<Rightarrow> choose_opts \<Rightarrow> int option" where
  "choose_size c opts =
     (let mb = - ((- or_default (o_size opts) 0) div 1048576)
      in if mb \<noteq> 0 then Some mb else defMaxSizeMB c)"

definition choose_replicas :: "choose_opts \<Rightarrow> int" where
  "choose_replicas opts = or_default (o_replicas opts) DEF_NUM_COPIES"

text \<open>
  \<open>filterDatacenters(sharkMap, dc)\<close>, with the arrays \<open>dcs\<close> and \<open>offsets\<close> that it
  pushes to as an argument and a result; \<open>sharkMap[dc]\<close> of \<open>null\<close> throws a TypeError.
  \<open>forEach_filterDatacenters\<close> is \<open>names.forEach(filterFun)\<close>.
\<close>

definition filterDatacenters ::
  "sharkMap option \<Rightarrow> int option \<Rightarrow> string list \<times> int list \<Rightarrow> string
   \<Rightarrow> exn + (string list \<times> int list)" where
  "filterDatacenters sharkMap size' acc dc =
     (case sharkMap of
        None \<Rightarrow> Inl TypeError
      | Some m \<Rightarrow>
         (case lower_bound (map_of m dc) size' None None of
            Inl e \<Rightarrow> Inl e
          | Inr l \<Rightarrow>
             if l \<noteq> - 1 then Inr (fst acc @ [dc], snd acc @ [l]) else Inr acc))"

fun forEach_filterDatacenters ::
  "sharkMap option \<Rightarrow> int option \<Rightarrow> string list \<Rightarrow> string list \<times> int list
   \<Rightarrow> exn + (string list \<times> int list)" where
  "forEach_filterDatacenters sharkMap size' [] acc = Inr acc"
| "forEach_filterDatacenters sharkMap size' (dc # rest) acc =
     (case filterDatacenters sharkMap size' acc dc of
        Inl e \<Rightarrow> Inl e
      | Inr acc' \<Rightarrow> forEach_filterDatacenters sharkMap size' rest acc')"

text \<open>\<open>%d\<close> of \<open>sprintf\<close> on an integer: its decimal digits.\<close>

fun show_nat :: "nat \<Rightarrow> string" where
  "show_nat n =
     (if n < 10 then [''0123456789'' ! n]
      else show_nat (n div 10) @ [''0123456789'' ! (n mod 10)])"

declare show_nat.simps [simp del]

definition show_int :: "int \<Rightarrow> string" where
  "show_int i = (if i < 0 then CHR ''-'' # show_nat (nat (- i)) else show_nat (nat i))"

text \<open>
  The check after the filter: the \<open>cause\<close> of the error when \<open>enoughDCs\<close> stays false,
  \<open>None\<close> when it becomes true.
\<close>

definition enoughDCs_cause :: "int \<Rightarrow> bool \<Rightarrow> nat \<Rightarrow> string option" where
  "enoughDCs_cause replicas multi ndcs =
     (if ndcs = 0 then Some ''no DC with sufficient space''
      else if replicas > 1 \<and> multi \<and> ndcs < 2 then
        Some (show_int replicas @ '' copies requested, but only '' @ show_nat ndcs @
              '' DC(s) have sufficient space'')
      else None)"

text \<open>
  The state that the closures \<open>host\<close> and \<open>set\<close> share within one call: the cursor
  \<open>self.dcIndex\<close>, the array \<open>seen\<close>, and what is left of the entropy.
\<close>

record build_state =
  bs_dcIndex :: int
  bs_seen :: "string list"
  bs_rand :: "nat list"

text \<open>
  The \<open>do ... while\<close> loop of \<open>host\<close>, entered with \<open>s = start\<close>. One round advances
  \<open>s\<close> (wrapping from \<open>dc.length\<close> to the offset), returns \<open>null\<close> (here
  \<open>Inr None\<close>) when \<open>s\<close> is back at \<open>start\<close>, and goes on while \<open>dc[s]\<close> has been
  seen; it leaves with the index of an unseen shark. \<open>dc[s].manta_storage_id\<close> of an
  \<open>undefined\<close> element throws a TypeError. \<open>None\<close> stands for a loop that does not end.
\<close>

partial_function (option) host_scan ::
  "shark list \<Rightarrow> string list \<Rightarrow> int \<Rightarrow> int \<Rightarrow> int \<Rightarrow> (exn + int option) option" where
  "host_scan dc seen off start s =
     (let s' = (if s + 1 = int (length dc) then off else s + 1)
      in if s' = start then Some (Inr None)
         else (case nth_js dc s' of
                 None \<Rightarrow> Some (Inl TypeError)
               | Some sh \<Rightarrow>
                  if manta_storage_id sh \<in> set seen then host_scan dc seen off start s'
                  else Some (Inr (Some s'))))"

declare host_scan.simps [code]

text \<open>
  The choice of an index inside \<open>host()\<close>, for the array \<open>dc\<close> of one datacenter:
  \<open>s = random(offsets[ndx], dc.length - 1)\<close>, kept when the shark at \<open>s\<close> has not
  been seen, else the scan from \<open>start = s\<close>. The result is the final \<open>s\<close>, or
  \<open>null\<close> (here \<open>Inr None\<close>).
\<close>

definition host_pick ::
  "shark list \<Rightarrow> string list \<Rightarrow> int \<Rightarrow> nat \<Rightarrow> (exn + int option) option" where
  "host_pick dc seen off r =
     (let s = random r off (int (length dc) - 1)
      in case nth_js dc s of
           None \<Rightarrow> Some (Inl TypeError)
         | Some sh \<Rightarrow>
            if manta_storage_id sh \<notin> set seen then Some (Inr (Some s))
            else host_scan dc seen off s s)"

text \<open>
  \<open>host()\<close>: advances the cursor, looks the datacenter up in the shark map
  (\<open>dc.length\<close> of \<open>undefined\<close> throws a TypeError, and so does a missing offset, which
  makes the index \<open>NaN\<close>), chooses the index \<open>s\<close>, pushes the id of \<open>dc[s]\<close> to
  \<open>seen\<close> and returns its datacenter and id.
\<close>

definition host ::
  "sharkMap option \<Rightarrow> string list \<Rightarrow> int list \<Rightarrow> build_state
   \<Rightarrow> ((exn + host_ref option) \<times> build_state) option" where
  "host sharkMap dcs offs st =
     (let ndx = (if bs_dcIndex st + 1 \<ge> int (length dcs) then 0 else bs_dcIndex st + 1);
          st1 = st\<lparr>bs_dcIndex := ndx\<rparr>
      in case sharkMap of
           None \<Rightarrow> Some (Inl TypeError, st1)
         | Some m \<Rightarrow>
            (case nth_js dcs ndx of
               None \<Rightarrow> Some (Inl TypeError, st1)
             | Some name \<Rightarrow>
                (case map_of m name of
                   None \<Rightarrow> Some (Inl TypeError, st1)
                 | Some dc \<Rightarrow>
                    (case nth_js offs ndx of
                       None \<Rightarrow> Some (Inl TypeError, st1)
                     | Some off \<Rightarrow>
                        (case draw (bs_rand st1) of (r, rs') \<Rightarrow>
                           (let st2 = st1\<lparr>bs_rand := rs'\<rparr>
                            in case host_pick dc (bs_seen st2) off r of
                                 None \<Rightarrow> None
                               | Some (Inl e) \<Rightarrow> Some (Inl e, st2)
                               | Some (Inr None) \<Rightarrow> Some (Inr None, st2)
                               | Some (Inr (Some s)) \<Rightarrow>
                                  (case nth_js dc s of
                                     None \<Rightarrow> Some (Inl TypeError, st2)
                                   | Some sh \<Rightarrow>
                                      Some (Inr (Some \<lparr>hr_datacenter = datacenter sh,
                                                  hr_manta_storage_id = manta_storage_id sh\<rparr>),
                                            st2\<lparr>bs_seen :=
                                                  bs_seen st2 @ [manta_storage_id sh]\<rparr>))))))))"

text \<open>
  \<open>set()\<close>: the loop \<open>for (j = 0; j < replicas; j++)\<close> runs \<open>nat replicas\<close> times on
  an integer \<open>replicas\<close>; one \<open>null\<close> host makes the result \<open>null\<close>.
\<close>

fun set_loop ::
  "sharkMap option \<Rightarrow> string list \<Rightarrow> int list \<Rightarrow> nat \<Rightarrow> host_ref list \<Rightarrow> build_state
   \<Rightarrow> ((exn + host_ref list option) \<times> build_state) option" where
  "set_loop sharkMap dcs offs 0 s st = Some (Inr (Some s), st)"
| "set_loop sharkMap dcs offs (Suc n) s st =
     (case host sharkMap dcs offs st of
        None \<Rightarrow> None
      | Some (Inl e, st') \<Rightarrow> Some (Inl e, st')
      | Some (Inr None, st') \<Rightarrow> Some (Inr None, st')
      | Some (Inr (Some h), st') \<Rightarrow> set_loop sharkMap dcs offs n (s @ [h]) st')"

definition set_js ::
  "sharkMap option \<Rightarrow> string list \<Rightarrow> int list \<Rightarrow> int \<Rightarrow> build_state
   \<Rightarrow> ((exn + host_ref list option) \<times> build_state) option" where
  "set_js sharkMap dcs offs replicas st = set_loop sharkMap dcs offs (nat replicas) [] st"

definition mapFun :: "host_ref \<Rightarrow> string" where
  "mapFun s = hr_datacenter s"

definition reduceFun :: "string list \<Rightarrow> string \<Rightarrow> string list" where
  "reduceFun last' now = (if now \<notin> set last' then last' @ [now] else last')"

text \<open>
  The loop \<open>for (i = 0; i < 3; i++)\<close> of \<open>choose\<close>, by the number of rounds left;
  \<open>sharks\<close> are the tuples pushed so far. It ends with the outcome of the call and the
  state of the closures.
\<close>

fun choose_loop ::
  "sharkMap option \<Rightarrow> string list \<Rightarrow> int list \<Rightarrow> int \<Rightarrow> bool \<Rightarrow> int option \<Rightarrow> chooseStats
   \<Rightarrow> nat \<Rightarrow> host_ref list list \<Rightarrow> build_state \<Rightarrow> (outcome \<times> build_state) option" where
  "choose_loop sharkMap dcs offs replicas multi size' stats 0 sharks st =
     Some (Callback_ok sharks stats, st)"
| "choose_loop sharkMap dcs offs replicas multi size' stats (Suc k) sharks st =
     (case set_js sharkMap dcs offs replicas st of
        None \<Rightarrow> None
      | Some (Inl e, st') \<Rightarrow> Some (Throws e, st')
      | Some (Inr tuple, st') \<Rightarrow>
         if sharks = [] \<and>
            (case tuple of None \<Rightarrow> True | Some t \<Rightarrow> int (length t) < replicas)
         then Some (Callback_err (NotEnoughSpaceError size'
                      ''copies requested exceeds number of available storage nodes'') stats, st')
         else
           (case tuple of
              None \<Rightarrow> choose_loop sharkMap dcs offs replicas multi size' stats k sharks st'
            | Some t \<Rightarrow>
               if multi \<and> replicas > 1 \<and> length (foldl reduceFun [] (map mapFun t)) < 2
               then Some (Callback_err (NotEnoughSpaceError size'
                            ''insufficient number of DCs selected'') stats, st')
               else choose_loop sharkMap dcs offs replicas multi size' stats k (sharks @ [t]) st'))"

text \<open>
  \<open>StorinfoClient.prototype.choose(opts, cb)\<close> on the entropy \<open>rs\<close>: the outcome and
  the client afterwards (only \<open>dcIndex\<close> is written). \<open>forEach\<close> of a \<open>null\<close> or
  \<open>undefined\<close> array of datacenter names throws a TypeError. \<open>shuffle\<close> permutes
  \<open>dcs\<close> in place, so \<open>chooseStats.dcsInUse\<close> is the shuffled array from there on;
  \<open>offsets\<close> stays as the filter left it.
\<close>

definition choose_js :: "client \<Rightarrow> choose_opts \<Rightarrow> nat list \<Rightarrow> (outcome \<times> client) option" where
  "choose_js c opts rs =
     (let replicas = choose_replicas opts;
          size' = choose_size c opts;
          isOp = (o_isOperator opts = Some True);
          sharkMap = (if isOp then operatorDcSharkMap c else dcSharkMap c);
          names = (if isOp then operatorDatacenters c else datacenters c)
      in case names of
           None \<Rightarrow> Some (Throws TypeError, c)
         | Some ns \<Rightarrow>
            (case forEach_filterDatacenters sharkMap size' ns ([], []) of
               Inl e \<Rightarrow> Some (Throws e, c)
             | Inr (dcs, offs) \<Rightarrow>
                (case enoughDCs_cause replicas (multiDC c) (length dcs) of
                   Some cause \<Rightarrow>
                     Some (Callback_err (NotEnoughSpaceError size' cause)
                             \<lparr>dcsInUse = dcs, offsets = offs\<rparr>, c)
                 | None \<Rightarrow>
                    (case shuffle dcs rs of (dcs', rs') \<Rightarrow>
                       (case choose_loop sharkMap dcs' offs replicas (multiDC c) size'
                               \<lparr>dcsInUse = dcs', offsets = offs\<rparr> 3 []
                               \<lparr>bs_dcIndex = dcIndex c, bs_seen = [], bs_rand = rs'\<rparr> of
                          None \<Rightarrow> None
                        | Some (out, st) \<Rightarrow> Some (out, c\<lparr>dcIndex := bs_dcIndex st\<rparr>))))))"

section \<open>Predicates for the statements\<close>

text \<open>
  What the choice of an index promises for the sub-range that starts at \<open>off\<close>: no
  exception; \<open>null\<close> only when every shark from \<open>off\<close> on has been seen; else an
  index from \<open>off\<close> on, inside the array, of a shark that has not been seen.
\<close>

definition scan_post :: "shark list \<Rightarrow> string list \<Rightarrow> int \<Rightarrow> (exn + int option) \<Rightarrow> bool" where
  "scan_post dc seen off res =
     (case res of
        Inl e \<Rightarrow> False
      | Inr None \<Rightarrow>
          (\<forall>i. off \<le> i \<and> i < int (length dc) \<longrightarrow> manta_storage_id (dc ! nat i) \<in> set seen)
      | Inr (Some s') \<Rightarrow>
          off \<le> s' \<and> s' < int (length dc) \<and> manta_storage_id (dc ! nat s') \<notin> set seen)"

text \<open>
  Where a returned host comes from: from some position of the arrays \<open>dcs\<close> and
  \<open>offsets\<close>, and from an index of that datacenter's array which is not below the
  offset at that position when this offset is an index of the array.
\<close>

definition picked_from :: "sharkMap \<Rightarrow> string list \<Rightarrow> int list \<Rightarrow> host_ref \<Rightarrow> bool" where
  "picked_from m dcs offs h =
     (\<exists>ndx name dc off s sh.
        nth_js dcs ndx = Some name \<and> map_of m name = Some dc \<and> nth_js offs ndx = Some off \<and>
        nth_js dc s = Some sh \<and> (0 \<le> off \<and> off < int (length dc) \<longrightarrow> off \<le> s) \<and>
        h = \<lparr>hr_datacenter = datacenter sh, hr_manta_storage_id = manta_storage_id sh\<rparr>)"

text \<open>
  What one call of \<open>host()\<close> does to \<open>seen\<close>: a host that is returned was not in
  \<open>seen\<close> and is pushed; otherwise \<open>seen\<close> is left as it was.
\<close>

definition host_post ::
  "sharkMap option \<Rightarrow> string list \<Rightarrow> int list \<Rightarrow> build_state \<Rightarrow>
   (exn + host_ref option) \<Rightarrow> build_state \<Rightarrow> bool" where
  "host_post sharkMap dcs offs st out st' =
     (case out of
        Inr (Some h) \<Rightarrow>
          hr_manta_storage_id h \<notin> set (bs_seen st) \<and>
          bs_seen st' = bs_seen st @ [hr_manta_storage_id h] \<and>
          (\<exists>m. sharkMap = Some m \<and> picked_from m dcs offs h)
      | _ \<Rightarrow> bs_seen st' = bs_seen st)"

text \<open>
  What \<open>set()\<close> returns: \<open>n\<close> new hosts, pairwise different, none of them seen
  before, all of them pushed to \<open>seen\<close>; or nothing, and \<open>seen\<close> has only grown.
\<close>

definition set_post ::
  "sharkMap option \<Rightarrow> string list \<Rightarrow> int list \<Rightarrow> nat \<Rightarrow> host_ref list \<Rightarrow> build_state \<Rightarrow>
   (exn + host_ref list option) \<Rightarrow> build_state \<Rightarrow> bool" where
  "set_post sharkMap dcs offs n acc st out st' =
     (case out of
        Inr (Some t) \<Rightarrow>
          (\<exists>new. t = acc @ new \<and> length new = n \<and>
             bs_seen st' = bs_seen st @ map hr_manta_storage_id new \<and>
             distinct (map hr_manta_storage_id new) \<and>
             set (map hr_manta_storage_id new) \<inter> set (bs_seen st) = {} \<and>
             (\<forall>h\<in>set new. \<exists>m. sharkMap = Some m \<and> picked_from m dcs offs h))
      | _ \<Rightarrow> set (bs_seen st) \<subseteq> set (bs_seen st'))"

text \<open>
  A tuple that \<open>choose\<close> pushes: \<open>replicas\<close> hosts, in at least two datacenters when
  the spread is checked.
\<close>

definition tuple_ok ::
  "sharkMap option \<Rightarrow> string list \<Rightarrow> int list \<Rightarrow> int \<Rightarrow> bool \<Rightarrow> host_ref list \<Rightarrow> bool" where
  "tuple_ok sharkMap dcs offs replicas multi t =
     (length t = nat replicas \<and>
      (multi \<and> replicas > 1 \<longrightarrow> 2 \<le> length (foldl reduceFun [] (map mapFun t))) \<and>
      (\<forall>h\<in>set t. \<exists>m. sharkMap = Some m \<and> picked_from m dcs offs h))"

text \<open>
  The outcome of \<open>k\<close> rounds of the loop of \<open>choose\<close>, started with \<open>sharks\<close>.
\<close>

definition loop_post ::
  "sharkMap option \<Rightarrow> string list \<Rightarrow> int list \<Rightarrow> int \<Rightarrow> bool \<Rightarrow> int option \<Rightarrow> chooseStats \<Rightarrow>
   nat \<Rightarrow> host_ref list list \<Rightarrow> build_state \<Rightarrow> outcome \<Rightarrow> build_state \<Rightarrow> bool" where
  "loop_post sharkMap dcs offs replicas multi size' stats k sharks st out st' =
     (case out of
        Callback_ok sharks' stats' \<Rightarrow>
          stats' = stats \<and>
          (\<exists>new. sharks' = sharks @ new \<and> length new \<le> k \<and>
             (sharks = [] \<and> 0 < k \<longrightarrow> new \<noteq> []) \<and>
             (\<forall>t\<in>set new. tuple_ok sharkMap dcs offs replicas multi t) \<and>
             distinct (concat (map (map hr_manta_storage_id) new)) \<and>
             set (concat (map (map hr_manta_storage_id) new)) \<inter> set (bs_seen st) = {} \<and>
             set (concat (map (map hr_manta_storage_id) new)) \<subseteq> set (bs_seen st'))
      | Callback_err e stats' \<Rightarrow>
          stats' = stats \<and>
          (e = NotEnoughSpaceError size'
                 ''copies requested exceeds number of available storage nodes'' \<or>
           e = NotEnoughSpaceError size' ''insufficient number of DCs selected'')
      | Throws e \<Rightarrow> True)"

text \<open>
  A datacenter qualifies for a size when one of its sharks has that much space;
  \<open>offset_of\<close> is what \<open>lower_bound\<close> returns for it. \<open>sorted_map\<close>: the names have
  arrays in the shark map, sorted by \<open>availableMB\<close>.
\<close>

definition qualifies :: "sharkMap \<Rightarrow> int \<Rightarrow> string \<Rightarrow> bool" where
  "qualifies m sz name =
     (case map_of m name of None \<Rightarrow> False | Some xs \<Rightarrow> list_ex (\<lambda>sh. sz \<le> availableMB sh) xs)"

definition offset_of :: "sharkMap \<Rightarrow> int \<Rightarrow> string \<Rightarrow> int" where
  "offset_of m sz name =
     (case lower_bound (map_of m name) (Some sz) None None of Inl e \<Rightarrow> - 1 | Inr l \<Rightarrow> l)"

definition sorted_map :: "sharkMap \<Rightarrow> string list \<Rightarrow> bool" where
  "sorted_map m names =
     list_all (\<lambda>name. case map_of m name of None \<Rightarrow> False
                       | Some xs \<Rightarrow> sorted (map availableMB xs)) names"

text \<open>The shark map and the array of names that a request reads.\<close>

definition request_map :: "client \<Rightarrow> choose_opts \<Rightarrow> sharkMap option" where
  "request_map c opts =
     (if o_isOperator opts = Some True then operatorDcSharkMap c else dcSharkMap c)"

definition request_names :: "client \<Rightarrow> choose_opts \<Rightarrow> string list option" where
  "request_names c opts =
     (if o_isOperator opts = Some True then operatorDatacenters c else datacenters c)"

text \<open>
  A client holds an installed topology for a request when the shark map that the request
  reads is there, the array of names holds its keys, and its arrays are sorted: the state
  that \<open>sortAndStoreDcs\<close> leaves.
\<close>

definition installed :: "client \<Rightarrow> choose_opts \<Rightarrow> sharkMap \<Rightarrow> bool" where
  "installed c opts m =
     (request_map c opts = Some m \<and> request_names c opts = Some (map fst m) \<and>
      list_all (\<lambda>(k, xs). sorted (map availableMB xs)) m)"

section \<open>Example data\<close>

text \<open>
  A sorted array of two sharks; a topology of two datacenters as it may arrive, not yet
  sorted; the options of the standalone client of the test suite, and that client with
  the topology installed; a request without any option.
\<close>

definition example_list :: "shark list" where
  "example_list =
     [\<lparr>manta_storage_id = ''a1'', datacenter = ''dc1'', availableMB = 1\<rparr>,
      \<lparr>manta_storage_id = ''a2'', datacenter = ''dc1'', availableMB = 100\<rparr>]"

definition example_dcObj :: sharkMap where
  "example_dcObj =
     [(''dc1'', [\<lparr>manta_storage_id = ''a2'', datacenter = ''dc1'', availableMB = 100\<rparr>,
                \<lparr>manta_storage_id = ''a1'', datacenter = ''dc1'', availableMB = 1\<rparr>]),
      (''dc2'', [\<lparr>manta_storage_id = ''b1'', datacenter = ''dc2'', availableMB = 100\<rparr>,
                \<lparr>manta_storage_id = ''b2'', datacenter = ''dc2'', availableMB = 100\<rparr>])]"

definition standalone_opts :: client_opts where
  "standalone_opts =
     \<lparr>opts_pollInterval = None, opts_multiDC = Some True,
      opts_defaultMaxStreamingSizeMB = Some 5120, opts_maxUtilizationPct = Some 90,
      opts_standalone = True\<rparr>"

definition example_client :: client where
  "example_client = sortAndStoreDcs (StorinfoClient standalone_opts) example_dcObj example_dcObj"

definition no_opts :: choose_opts where
  "no_opts = \<lparr>o_replicas = None, o_size = None, o_isOperator = None\<rparr>"

text \<open>
  The scenario of the specification (one shark of 10 MB in each of two datacenters), the
  same topology with a shark whose \<open>datacenter\<close> field names the other datacenter, and
  a topology of one datacenter.
\<close>

definition scenario_client :: client where
  "scenario_client =
     sortAndStoreDcs (StorinfoClient standalone_opts)
       [(''dc1'', [\<lparr>manta_storage_id = ''a'', datacenter = ''dc1'', availableMB = 10\<rparr>]),
        (''dc2'', [\<lparr>manta_storage_id = ''b'', datacenter = ''dc2'', availableMB = 10\<rparr>])]
       [(''dc1'', [\<lparr>manta_storage_id = ''a'', datacenter = ''dc1'', availableMB = 10\<rparr>]),
        (''dc2'', [\<lparr>manta_storage_id = ''b'', datacenter = ''dc2'', availableMB = 10\<rparr>])]"

definition mislabelled_client :: client where
  "mislabelled_client =
     sortAndStoreDcs (StorinfoClient standalone_opts)
       [(''dc1'', [\<lparr>manta_storage_id = ''a'', datacenter = ''dc1'', availableMB = 10\<rparr>]),
        (''dc2'', [\<lparr>manta_storage_id = ''b'', datacenter = ''dc1'', availableMB = 10\<rparr>])]
       []"

definition single_dc_client :: client where
  "single_dc_client =
     sortAndStoreDcs (StorinfoClient standalone_opts)
       [(''dc1'', [\<lparr>manta_storage_id = ''a'', datacenter = ''dc1'', availableMB = 10\<rparr>])]
       []"

text \<open>
  A topology whose two datacenters have different lower bounds for 50 MB: 0 and 2.
\<close>

definition skewed_client :: client where
  "skewed_client =
     sortAndStoreDcs (StorinfoClient standalone_opts)
       [(''dc1'', [\<lparr>manta_storage_id = ''a1'', datacenter = ''dc1'', availableMB = 100\<rparr>]),
        (''dc2'', [\<lparr>manta_storage_id = ''b1'', datacenter = ''dc2'', availableMB = 1\<rparr>,
                  \<lparr>manta_storage_id = ''b2'', datacenter = ''dc2'', availableMB = 2\<rparr>,
                  \<lparr>manta_storage_id = ''b3'', datacenter = ''dc2'', availableMB = 100\<rparr>])]
       []"

text \<open>A request of a normal (not operator) caller.\<close>

definition request :: "int option \<Rightarrow> int option \<Rightarrow> choose_opts" where
  "request replicas size' = \<lparr>o_replicas = replicas, o_size = size', o_isOperator = None\<rparr>"

text \<open>Values that the calls on the scenario pass through.\<close>

definition scenario_stats :: chooseStats where
  "scenario_stats = \<lparr>dcsInUse = [''dc2'', ''dc1''], offsets = [0, 0]\<rparr>"

definition scenario_tuple :: "host_ref list" where
  "scenario_tuple =
     [\<lparr>hr_datacenter = ''dc2'', hr_manta_storage_id = ''b''\<rparr>,
      \<lparr>hr_datacenter = ''dc1'', hr_manta_storage_id = ''a''\<rparr>]"

definition mislabelled_tuple :: "host_ref list" where
  "mislabelled_tuple =
     [\<lparr>hr_datacenter = ''dc1'', hr_manta_storage_id = ''b''\<rparr>,
      \<lparr>hr_datacenter = ''dc1'', hr_manta_storage_id = ''a''\<rparr>]"

definition fresh_state :: build_state where
  "fresh_state = \<lparr>bs_dcIndex = - 1, bs_seen = [], bs_rand = []\<rparr>"

definition used_state :: "int \<Rightarrow> build_state" where
  "used_state i = \<lparr>bs_dcIndex = i, bs_seen = [''b'', ''a''], bs_rand = []\<rparr>"

section \<open>lower_bound finds the qualifying sub-range\<close>

text \<open>
  The loop keeps the indices below \<open>low\<close> too small and the indices from \<open>high\<close> on
  large enough, and inside the array it never reads an undefined element.
\<close>

lemma lower_bound_loop_inv:
  "sorted (map availableMB xs) \<Longrightarrow> 0 \<le> low \<Longrightarrow> low \<le> high \<Longrightarrow> high \<le> int (length xs) \<Longrightarrow>
   (\<forall>j. j < nat low \<longrightarrow> availableMB (xs ! j) < sz) \<Longrightarrow>
   (\<forall>j. nat high \<le> j \<and> j < length xs \<longrightarrow> sz \<le> availableMB (xs ! j)) \<Longrightarrow>
   \<exists>r. lower_bound_loop xs sz low high = Inr r \<and> 0 \<le> r \<and> r \<le> int (length xs) \<and>
     (\<forall>j. j < nat r \<longrightarrow> availableMB (xs ! j) < sz) \<and>
     (\<forall>j. nat r \<le> j \<and> j < length xs \<longrightarrow> sz \<le> availableMB (xs ! j))"
proof (induction xs sz low high rule: lower_bound_loop.induct)
  case (1 xs sz low high)
  show ?case
  proof (cases "low < high")
    case False
    with "1.prems" have "low = high" by simp
    with "1.prems" False show ?thesis by (simp add: Let_def)
  next
    case True
    define mid where "mid = low + (high - low) div 2"
    have mid: "low \<le> mid" "mid < high" using True by (auto simp: mid_def)
    then have inr: "0 \<le> mid" "mid < int (length xs)" using "1.prems" by auto
    then have nth: "nth_js xs mid = Some (xs ! nat mid)" by (simp add: nth_js_def)
    have srt: "\<And>i j. i \<le> j \<Longrightarrow> j < length xs \<Longrightarrow> availableMB (xs ! i) \<le> availableMB (xs ! j)"
      using "1.prems"(1) by (simp add: sorted_iff_nth_mono)
    show ?thesis
    proof (cases "sz \<le> availableMB (xs ! nat mid)")
      case ge: True
      have hi: "\<forall>j. nat mid \<le> j \<and> j < length xs \<longrightarrow> sz \<le> availableMB (xs ! j)"
      proof (intro allI impI)
        fix j assume "nat mid \<le> j \<and> j < length xs"
        then have "availableMB (xs ! nat mid) \<le> availableMB (xs ! j)" using srt by blast
        with ge show "sz \<le> availableMB (xs ! j)" by linarith
      qed
      have "\<exists>r. lower_bound_loop xs sz low mid = Inr r \<and> 0 \<le> r \<and> r \<le> int (length xs) \<and>
        (\<forall>j. j < nat r \<longrightarrow> availableMB (xs ! j) < sz) \<and>
        (\<forall>j. nat r \<le> j \<and> j < length xs \<longrightarrow> sz \<le> availableMB (xs ! j))"
        using "1.IH"(1)[OF True mid_def nth ge "1.prems"(1,2)] mid inr "1.prems"(5) hi by simp
      moreover have "lower_bound_loop xs sz low high = lower_bound_loop xs sz low mid"
        using True nth ge by (subst lower_bound_loop.simps) (simp add: Let_def mid_def[symmetric])
      ultimately show ?thesis by simp
    next
      case lt: False
      have lo: "\<forall>j. j < nat (mid + 1) \<longrightarrow> availableMB (xs ! j) < sz"
      proof (intro allI impI)
        fix j assume "j < nat (mid + 1)"
        then have "j \<le> nat mid" using inr by linarith
        moreover have "nat mid < length xs" using inr by linarith
        ultimately have "availableMB (xs ! j) \<le> availableMB (xs ! nat mid)" using srt by blast
        with lt show "availableMB (xs ! j) < sz" by linarith
      qed
      have "\<exists>r. lower_bound_loop xs sz (mid + 1) high = Inr r \<and> 0 \<le> r \<and> r \<le> int (length xs) \<and>
        (\<forall>j. j < nat r \<longrightarrow> availableMB (xs ! j) < sz) \<and>
        (\<forall>j. nat r \<le> j \<and> j < length xs \<longrightarrow> sz \<le> availableMB (xs ! j))"
        using "1.IH"(2)[OF True mid_def nth lt "1.prems"(1)] mid inr "1.prems"(4,6) lo by simp
      moreover have "lower_bound_loop xs sz low high = lower_bound_loop xs sz (mid + 1) high"
        using True nth lt by (subst lower_bound_loop.simps) (simp add: Let_def mid_def[symmetric])
      ultimately show ?thesis by simp
    qed
  qed
qed


lemma lower_bound_spec:
  assumes "sorted (map availableMB xs)"
  shows "\<exists>r. lower_bound (Some xs) (Some sz) None None = Inr r \<and>
           (if \<exists>sh\<in>set xs. sz \<le> availableMB sh
            then 0 \<le> r \<and> r < int (length xs) \<and>
                 (\<forall>j. j < nat r \<longrightarrow> availableMB (xs ! j) < sz) \<and>
                 (\<forall>j. nat r \<le> j \<and> j < length xs \<longrightarrow> sz \<le> availableMB (xs ! j))
            else r = - 1)"
proof -
  obtain r where r: "lower_bound_loop xs sz 0 (int (length xs)) = Inr r" "0 \<le> r"
      "r \<le> int (length xs)"
      "\<forall>j. j < nat r \<longrightarrow> availableMB (xs ! j) < sz"
      "\<forall>j. nat r \<le> j \<and> j < length xs \<longrightarrow> sz \<le> availableMB (xs ! j)"
    using lower_bound_loop_inv[OF assms, of 0 "int (length xs)" sz] by auto
  show ?thesis
  proof (cases "r < int (length xs)")
    case True
    then have n: "nth_js xs r = Some (xs ! nat r)" using r(2) by (simp add: nth_js_def)
    have ge: "sz \<le> availableMB (xs ! nat r)" using r(5) True r(2) by simp
    have mem: "xs ! nat r \<in> set xs" using True r(2) by simp
    have "lower_bound (Some xs) (Some sz) None None = Inr r"
      using r(1) n ge by (simp add: lower_bound_def)
    moreover have "\<exists>sh\<in>set xs. sz \<le> availableMB sh" using ge mem by blast
    ultimately show ?thesis using r True by simp
  next
    case False
    then have len: "r = int (length xs)" using r(3) by simp
    then have n: "nth_js xs r = None" by (simp add: nth_js_def)
    have "lower_bound (Some xs) (Some sz) None None = Inr (- 1)"
      using r(1) n by (simp add: lower_bound_def)
    moreover have "\<not> (\<exists>sh\<in>set xs. sz \<le> availableMB sh)"
    proof
      assume "\<exists>sh\<in>set xs. sz \<le> availableMB sh"
      then obtain j where "j < length xs" "sz \<le> availableMB (xs ! j)"
        by (auto simp: in_set_conv_nth)
      with r(4) len show False by force
    qed
    ultimately show ?thesis by simp
  qed
qed

text \<open>
  Claim C4. On a list sorted ascending by \<open>availableMB\<close>, \<open>lower_bound(set, size)\<close>
  returns the smallest index whose shark has \<open>availableMB \<ge> size\<close>, and \<open>-1\<close> when
  there is none. In particular: the empty list gives \<open>-1\<close>; a one-element list whose
  element has exactly \<open>size\<close> gives \<open>0\<close>; a size above the largest (last) element
  gives \<open>-1\<close>; a non-empty list whose sharks all qualify gives \<open>0\<close>.
\<close>

theorem lower_bound_smallest_qualifying_index:
  assumes "sorted (map availableMB xs)"
  shows "(\<exists>r. lower_bound (Some xs) (Some sz) None None = Inr r \<and>
            (if \<exists>sh\<in>set xs. sz \<le> availableMB sh
             then 0 \<le> r \<and> r < int (length xs) \<and> sz \<le> availableMB (xs ! nat r) \<and>
                  (\<forall>j. j < nat r \<longrightarrow> availableMB (xs ! j) < sz)
             else r = - 1)) \<and>
         lower_bound (Some []) (Some sz) None None = Inr (- 1) \<and>
         (\<forall>x. availableMB x = sz \<longrightarrow> lower_bound (Some [x]) (Some sz) None None = Inr 0) \<and>
         (xs \<noteq> [] \<and> availableMB (last xs) < sz \<longrightarrow>
            lower_bound (Some xs) (Some sz) None None = Inr (- 1)) \<and>
         (xs \<noteq> [] \<and> (\<forall>sh\<in>set xs. sz \<le> availableMB sh) \<longrightarrow>
            lower_bound (Some xs) (Some sz) None None = Inr 0)"
proof (intro conjI)
  obtain r where r: "lower_bound (Some xs) (Some sz) None None = Inr r"
      "if \<exists>sh\<in>set xs. sz \<le> availableMB sh
       then 0 \<le> r \<and> r < int (length xs) \<and>
            (\<forall>j. j < nat r \<longrightarrow> availableMB (xs ! j) < sz) \<and>
            (\<forall>j. nat r \<le> j \<and> j < length xs \<longrightarrow> sz \<le> availableMB (xs ! j))
       else r = - 1"
    using lower_bound_spec[OF assms, of sz] by blast
  show "\<exists>r. lower_bound (Some xs) (Some sz) None None = Inr r \<and>
            (if \<exists>sh\<in>set xs. sz \<le> availableMB sh
             then 0 \<le> r \<and> r < int (length xs) \<and> sz \<le> availableMB (xs ! nat r) \<and>
                  (\<forall>j. j < nat r \<longrightarrow> availableMB (xs ! j) < sz)
             else r = - 1)"
  proof (cases "\<exists>sh\<in>set xs. sz \<le> availableMB sh")
    case True
    with r(2) have b: "0 \<le> r" "r < int (length xs)"
      "\<forall>j. nat r \<le> j \<and> j < length xs \<longrightarrow> sz \<le> availableMB (xs ! j)" by auto
    then have "sz \<le> availableMB (xs ! nat r)" by simp
    with r True show ?thesis by auto
  next
    case False
    with r show ?thesis by auto
  qed
  show "lower_bound (Some []) (Some sz) None None = Inr (- 1)"
    by (simp add: lower_bound_def nth_js_def)
  show "\<forall>x. availableMB x = sz \<longrightarrow> lower_bound (Some [x]) (Some sz) None None = Inr 0"
    by (simp add: lower_bound_def nth_js_def Let_def)
  show "xs \<noteq> [] \<and> availableMB (last xs) < sz \<longrightarrow>
        lower_bound (Some xs) (Some sz) None None = Inr (- 1)"
  proof
    assume a: "xs \<noteq> [] \<and> availableMB (last xs) < sz"
    have "\<not> (\<exists>sh\<in>set xs. sz \<le> availableMB sh)"
    proof
      assume "\<exists>sh\<in>set xs. sz \<le> availableMB sh"
      then obtain j where j: "j < length xs" "sz \<le> availableMB (xs ! j)"
        by (auto simp: in_set_conv_nth)
      have "availableMB (xs ! j) \<le> availableMB (xs ! (length xs - 1))"
        using assms j(1) by (simp add: sorted_iff_nth_mono)
      moreover have "xs ! (length xs - 1) = last xs" using a by (simp add: last_conv_nth)
      ultimately show False using a j(2) by simp
    qed
    with r show "lower_bound (Some xs) (Some sz) None None = Inr (- 1)" by simp
  qed
  show "xs \<noteq> [] \<and> (\<forall>sh\<in>set xs. sz \<le> availableMB sh) \<longrightarrow>
        lower_bound (Some xs) (Some sz) None None = Inr 0"
  proof
    assume a: "xs \<noteq> [] \<and> (\<forall>sh\<in>set xs. sz \<le> availableMB sh)"
    then have ex: "\<exists>sh\<in>set xs. sz \<le> availableMB sh" by (cases xs) auto
    with r(2) have lt: "\<forall>j. j < nat r \<longrightarrow> availableMB (xs ! j) < sz" and r0: "0 \<le> r" by auto
    have "sz \<le> availableMB (xs ! 0)" using a by (cases xs) auto
    with lt have "\<not> 0 < nat r" by force
    with r0 have "r = 0" by simp
    with r(1) show "lower_bound (Some xs) (Some sz) None None = Inr 0" by simp
  qed
qed

theorem lower_bound_smallest_qualifying_index_witness:
  "sorted (map availableMB example_list) \<and>
   lower_bound (Some example_list) (Some 50) None None = Inr 1 \<and>
   lower_bound (Some example_list) (Some 101) None None = Inr (- 1) \<and>
   lower_bound (Some example_list) (Some 1) None None = Inr 0"
proof -
  have s: "sorted (map availableMB example_list)" by (simp add: example_list_def)
  have e: "lower_bound (Some example_list) (Some 50) None None = Inr 1"
          "lower_bound (Some example_list) (Some 101) None None = Inr (- 1)"
          "lower_bound (Some example_list) (Some 1) None None = Inr 0"
    by code_simp+
  show ?thesis
    using s e lower_bound_smallest_qualifying_index[OF s, of 50] by simp
qed

section \<open>sortAndStoreDcs establishes the order that lower_bound needs\<close>

lemma insert_js_set: "set (insert_js cmp x ys) = insert x (set ys)"
  by (induction ys) auto

lemma insert_js_sorted:
  "sorted (map availableMB ys) \<Longrightarrow>
   sorted (map availableMB (insert_js storageZoneComparator x ys))"
  by (induction ys) (auto simp: storageZoneComparator_def insert_js_set split: if_splits)

lemma insert_js_length: "length (insert_js cmp x ys) = Suc (length ys)"
  by (induction ys) auto

lemma sort_js_sorted: "sorted (map availableMB (sort_js storageZoneComparator xs))"
  by (induction xs) (simp_all add: sort_js_def insert_js_sorted)

lemma sort_js_set: "set (sort_js cmp xs) = set xs"
  by (induction xs) (simp_all add: sort_js_def insert_js_set)

lemma sort_js_length: "length (sort_js cmp xs) = length xs"
  by (induction xs) (simp_all add: sort_js_def insert_js_length)

lemma map_of_sorted_map:
  "map_of (map (\<lambda>(k, v). (k, sort_js storageZoneComparator v)) m) k =
   map_option (sort_js storageZoneComparator) (map_of m k)"
  by (induction m) auto

text \<open>
  Claim C10. After \<open>sortAndStoreDcs\<close>, every array of the normal and of the operator
  shark map is sorted ascending by \<open>availableMB\<close> (the install sorts them itself),
  and the stored arrays of datacenter names are the keys of the two maps. The keys are
  those of the objects passed in, and every array keeps its elements.
\<close>

theorem sortAndStoreDcs_sorted_and_keys:
  "\<exists>m om. dcSharkMap (sortAndStoreDcs c dcObj opDcObj) = Some m \<and>
          operatorDcSharkMap (sortAndStoreDcs c dcObj opDcObj) = Some om \<and>
          (\<forall>(k, l) \<in> set m. sorted (map availableMB l)) \<and>
          (\<forall>(k, l) \<in> set om. sorted (map availableMB l)) \<and>
          datacenters (sortAndStoreDcs c dcObj opDcObj) = Some (map fst m) \<and>
          operatorDatacenters (sortAndStoreDcs c dcObj opDcObj) = Some (map fst om) \<and>
          map fst m = map fst dcObj \<and> map fst om = map fst opDcObj \<and>
          (\<forall>k. map_option set (map_of m k) = map_option set (map_of dcObj k)) \<and>
          (\<forall>k. map_option set (map_of om k) = map_option set (map_of opDcObj k))"
  by (auto simp: sortAndStoreDcs_def Let_def sort_js_sorted comp_def case_prod_unfold
        map_of_sorted_map[unfolded case_prod_unfold] option.map_comp sort_js_set)

theorem sortAndStoreDcs_sorted_and_keys_witness:
  "dcSharkMap example_client =
     Some [(''dc1'', [\<lparr>manta_storage_id = ''a1'', datacenter = ''dc1'', availableMB = 1\<rparr>,
                     \<lparr>manta_storage_id = ''a2'', datacenter = ''dc1'', availableMB = 100\<rparr>]),
           (''dc2'', [\<lparr>manta_storage_id = ''b1'', datacenter = ''dc2'', availableMB = 100\<rparr>,
                     \<lparr>manta_storage_id = ''b2'', datacenter = ''dc2'', availableMB = 100\<rparr>])] \<and>
   datacenters example_client = Some [''dc1'', ''dc2''] \<and>
   operatorDatacenters example_client = Some [''dc1'', ''dc2'']"
proof -
  have "dcSharkMap example_client =
     Some [(''dc1'', [\<lparr>manta_storage_id = ''a1'', datacenter = ''dc1'', availableMB = 1\<rparr>,
                     \<lparr>manta_storage_id = ''a2'', datacenter = ''dc1'', availableMB = 100\<rparr>]),
           (''dc2'', [\<lparr>manta_storage_id = ''b1'', datacenter = ''dc2'', availableMB = 100\<rparr>,
                     \<lparr>manta_storage_id = ''b2'', datacenter = ''dc2'', availableMB = 100\<rparr>])]"
    by code_simp
  then show ?thesis
    using sortAndStoreDcs_sorted_and_keys[of "StorinfoClient standalone_opts" example_dcObj example_dcObj]
    by (auto simp: example_client_def example_dcObj_def)
qed

section \<open>choose without a topology\<close>

text \<open>Every error that \<open>choose\<close> hands to its callback is a NotEnoughSpaceError.\<close>

lemma choose_loop_error_kind:
  "choose_loop sharkMap dcs offs replicas multi sz stats k sharks st = Some (Callback_err e stats', st')
   \<Longrightarrow> \<exists>cause. e = NotEnoughSpaceError sz cause"
proof (induction k arbitrary: sharks st)
  case 0
  then show ?case by simp
next
  case (Suc k)
  then show ?case
    by (auto split: option.splits sum.splits prod.splits if_splits)
qed

lemma choose_js_error_kind:
  assumes "choose_js c opts rs = Some (Callback_err e stats, c')"
  shows "\<exists>cause. e = NotEnoughSpaceError (choose_size c opts) cause"
  using assms choose_loop_error_kind
  unfolding choose_js_def Let_def
  by (fastforce split: option.splits sum.splits prod.splits)

text \<open>
  Claim C7, as the code has it. \<open>choose\<close> never reports a StandaloneModeError, but it
  needs an installed topology: the constructor leaves the shark maps and the arrays of
  datacenter names \<open>null\<close> (or unassigned), so on a client just constructed every call
  of \<open>choose\<close> throws a TypeError at \<open>forEach\<close>, before the callback is reached.
  Once \<open>sortAndStoreDcs\<close> has installed a topology, even an empty one, the call on the
  empty topology ends in the callback, with the NotEnoughSpaceError
  "no DC with sufficient space".
\<close>

theorem choose_needs_installed_snapshot:
  "choose_js (StorinfoClient copts) opts rs = Some (Throws TypeError, StorinfoClient copts) \<and>
   choose_js (sortAndStoreDcs (StorinfoClient copts) [] []) opts rs =
     Some (Callback_err
             (NotEnoughSpaceError (choose_size (StorinfoClient copts) opts)
                ''no DC with sufficient space'')
             \<lparr>dcsInUse = [], offsets = []\<rparr>,
           sortAndStoreDcs (StorinfoClient copts) [] []) \<and>
   (\<forall>c stats c'. choose_js c opts rs \<noteq> Some (Callback_err StandaloneModeError stats, c'))"
proof (intro conjI allI)
  show "choose_js (StorinfoClient copts) opts rs = Some (Throws TypeError, StorinfoClient copts)"
    by (simp add: choose_js_def StorinfoClient_def Let_def)
  show "choose_js (sortAndStoreDcs (StorinfoClient copts) [] []) opts rs =
     Some (Callback_err
             (NotEnoughSpaceError (choose_size (StorinfoClient copts) opts)
                ''no DC with sufficient space'')
             \<lparr>dcsInUse = [], offsets = []\<rparr>,
           sortAndStoreDcs (StorinfoClient copts) [] [])"
    by (simp add: choose_js_def sortAndStoreDcs_def Let_def enoughDCs_cause_def choose_size_def)
  fix c stats c'
  show "choose_js c opts rs \<noteq> Some (Callback_err StandaloneModeError stats, c')"
    using choose_js_error_kind[of c opts rs StandaloneModeError stats c'] by auto
qed

theorem choose_needs_installed_snapshot_witness:
  "choose_js (sortAndStoreDcs (StorinfoClient standalone_opts) [] []) no_opts [] =
     Some (Callback_err (NotEnoughSpaceError None ''no DC with sufficient space'')
             \<lparr>dcsInUse = [], offsets = []\<rparr>,
           sortAndStoreDcs (StorinfoClient standalone_opts) [] [])"
  using choose_needs_installed_snapshot[of standalone_opts no_opts "[]"]
  by (simp add: choose_size_def StorinfoClient_def standalone_opts_def no_opts_def or_default_def)

text \<open>
  The claim as the specification states it fails: on the client that the constructor
  returns, \<open>choose\<close> throws instead of calling back.
\<close>

theorem choose_on_fresh_client_throws:
  "choose_js (StorinfoClient standalone_opts) no_opts [] =
     Some (Throws TypeError, StorinfoClient standalone_opts)"
  by (simp add: choose_js_def StorinfoClient_def Let_def)

section \<open>The effective size and replica count\<close>

text \<open>
  Claim C9. The size of a request is its number of bytes rounded up to whole megabytes,
  a request without a size takes \<open>defMaxSizeMB\<close> of the client, and the replica count
  defaults to 2. The default 5120 of \<open>defMaxSizeMB\<close> is assigned only in a client that
  polls: in the standalone client of the test suite (constructed with
  \<open>defaultMaxStreamingSizeMB: 5120\<close>) it stays undefined, the size of \<open>choose({})\<close> is
  undefined, and \<open>assert.number(size)\<close> in \<open>lower_bound\<close> throws.
\<close>

theorem default_size_undefined_in_standalone_client:
  "defMaxSizeMB (StorinfoClient standalone_opts) = None \<and>
   choose_size example_client no_opts = None \<and>
   choose_js example_client no_opts [] = Some (Throws AssertionError, example_client)"
  by code_simp

text \<open>
  The parts of the claim that hold whatever the client: rounding up to megabytes, and,
  in a polling client constructed without \<open>defaultMaxStreamingSizeMB\<close>, the defaults
  5120 and 2.
\<close>

lemma choose_size_rounds_up:
  "0 < b \<Longrightarrow> choose_size c (opts\<lparr>o_size := Some b\<rparr>) = Some (- ((- b) div 1048576)) \<and>
     (- ((- b) div 1048576) - 1) * 1048576 < b \<and> b \<le> - ((- b) div 1048576) * 1048576"
  by (auto simp: choose_size_def or_default_def Let_def)

lemma choose_defaults_when_polling:
  "opts_pollInterval copts \<noteq> None \<Longrightarrow> \<not> opts_standalone copts \<Longrightarrow>
   opts_defaultMaxStreamingSizeMB copts = None \<Longrightarrow>
   choose_size (sortAndStoreDcs (StorinfoClient copts) dcObj opDcObj) no_opts = Some 5120 \<and>
   choose_replicas no_opts = 2"
  by (simp add: choose_size_def or_default_def Let_def StorinfoClient_def sortAndStoreDcs_def
      no_opts_def DEF_MAX_STREAMING_SIZE_MB_def choose_replicas_def DEF_NUM_COPIES_def)

section \<open>The entropy covers what Math.random can do\<close>

text \<open>
  \<open>floor_random\<close> takes exactly the values of \<open>Math.floor(Math.random() * k)\<close>, and
  \<open>shuffle\<close> returns a permutation of the same length.
\<close>

lemma floor_random_range:
  "(0 < k \<longrightarrow> 0 \<le> floor_random r k \<and> floor_random r k < k) \<and>
   (k \<le> 0 \<longrightarrow> k \<le> floor_random r k \<and> floor_random r k \<le> 0)"
proof (cases "0 < k")
  case True
  then show ?thesis by (simp add: floor_random_def)
next
  case False
  then have "int r mod (1 - k) < 1 - k" by (intro pos_mod_bound) simp
  then have "k \<le> - (int r mod (1 - k))" by linarith
  then show ?thesis using False by (simp add: floor_random_def)
qed

lemma floor_random_reaches:
  "(0 \<le> v \<and> v < k \<longrightarrow> floor_random (nat v) k = v) \<and>
   (k \<le> v \<and> v \<le> 0 \<and> k \<le> 0 \<longrightarrow> floor_random (nat (- v)) k = v)"
  by (auto simp: floor_random_def)

lemma shuffle_loop_permutes:
  "n \<le> length xs \<Longrightarrow>
   length (fst (shuffle_loop n xs rs)) = length xs \<and> set (fst (shuffle_loop n xs rs)) = set xs"
proof (induction n arbitrary: xs rs)
  case 0
  then show ?case by simp
next
  case (Suc n)
  obtain r rs' where d: "draw rs = (r, rs')" by (cases "draw rs")
  define i where "i = nat (floor_random r (int (Suc n)))"
  have "0 \<le> floor_random r (int (Suc n)) \<and> floor_random r (int (Suc n)) < int (Suc n)"
    using floor_random_range[of "int (Suc n)" r] by simp
  then have i: "i < Suc n" unfolding i_def by linarith
  have b: "n < length xs" "i < length xs" using Suc.prems i by simp_all
  define ys where "ys = xs[n := xs ! i, i := xs ! n]"
  have ys: "length ys = length xs" "set ys = set xs"
    using b by (simp_all add: ys_def set_swap)
  have "shuffle_loop (Suc n) xs rs = shuffle_loop n ys rs'"
    using d by (simp add: Let_def i_def ys_def)
  moreover have "length (fst (shuffle_loop n ys rs')) = length ys \<and>
                 set (fst (shuffle_loop n ys rs')) = set ys"
    using Suc.IH[of ys rs'] b ys by simp
  ultimately show ?case using ys by simp
qed

lemma shuffle_permutes:
  "length (fst (shuffle xs rs)) = length xs \<and> set (fst (shuffle xs rs)) = set xs"
  unfolding shuffle_def by (rule shuffle_loop_permutes) simp

section \<open>The choice of a shark in one datacenter\<close>

text \<open>One round of the scan, without the \<open>let\<close>.\<close>

lemma host_scan_step:
  "host_scan dc seen off start s =
     (if (if s + 1 = int (length dc) then off else s + 1) = start then Some (Inr None)
      else (case nth_js dc (if s + 1 = int (length dc) then off else s + 1) of
              None \<Rightarrow> Some (Inl TypeError)
            | Some sh \<Rightarrow>
               if manta_storage_id sh \<in> set seen
               then host_scan dc seen off start (if s + 1 = int (length dc) then off else s + 1)
               else Some (Inr (Some (if s + 1 = int (length dc) then off else s + 1)))))"
  by (subst host_scan.simps) (simp add: Let_def)

text \<open>
  The scan ends. It runs from \<open>start\<close> to the end of the array, then from \<open>off\<close> up
  to \<open>start\<close>; the measure is the number of rounds left on that way. All indices
  passed so far hold sharks that have been seen.
\<close>

lemma host_scan_returns_aux:
  assumes os: "off \<le> start" and s0: "0 \<le> start" and sl: "start < int (length dc)"
  shows "(start \<le> s \<and> s < int (length dc) \<and>
            (\<forall>i. start \<le> i \<and> i \<le> s \<longrightarrow> manta_storage_id (dc ! nat i) \<in> set seen)) \<or>
         (off \<le> s \<and> s < start \<and>
            (\<forall>i. start \<le> i \<and> i < int (length dc) \<longrightarrow> manta_storage_id (dc ! nat i) \<in> set seen) \<and>
            (\<forall>i. off \<le> i \<and> i \<le> s \<longrightarrow> manta_storage_id (dc ! nat i) \<in> set seen))
         \<Longrightarrow> \<exists>res. host_scan dc seen off start s = Some res \<and>
                  (0 \<le> off \<longrightarrow> scan_post dc seen off res)"
proof (induction "nat (if start \<le> s then int (length dc) - s + (start - off) else start - s)"
        arbitrary: s rule: less_induct)
  case less
  let ?len = "int (length dc)"
  let ?seen = "\<lambda>i. manta_storage_id (dc ! nat i) \<in> set seen"
  let ?s' = "if s + 1 = ?len then off else s + 1"
  note step = host_scan_step[of dc seen off start s]
  from less.prems consider
      (p1) "start \<le> s" "s < ?len" "\<forall>i. start \<le> i \<and> i \<le> s \<longrightarrow> ?seen i"
    | (p2) "off \<le> s" "s < start" "\<forall>i. start \<le> i \<and> i < ?len \<longrightarrow> ?seen i"
           "\<forall>i. off \<le> i \<and> i \<le> s \<longrightarrow> ?seen i"
    by blast
  then show ?case
  proof cases
    case p1
    show ?thesis
    proof (cases "s + 1 = ?len")
      case wrap: True
      show ?thesis
      proof (cases "off = start")
        case True
        have "\<forall>i. off \<le> i \<and> i < ?len \<longrightarrow> ?seen i" using p1(3) True wrap by auto
        then show ?thesis using step wrap True by (simp add: scan_post_def)
      next
        case False
        then have lt: "off < start" using os by simp
        show ?thesis
        proof (cases "0 \<le> off")
          case neg: False
          then have "nth_js dc off = None" by (simp add: nth_js_def)
          then show ?thesis using step wrap False neg by simp
        next
          case nn: True
          then have n: "nth_js dc off = Some (dc ! nat off)" using lt sl by (simp add: nth_js_def)
          show ?thesis
          proof (cases "?seen off")
            case unseen: False
            then show ?thesis using step wrap False n lt sl
              by (simp add: scan_post_def)
          next
            case sn: True
            have all1: "\<forall>i. start \<le> i \<and> i < ?len \<longrightarrow> ?seen i" using p1(3) wrap by auto
            have all2: "\<forall>i. off \<le> i \<and> i \<le> off \<longrightarrow> ?seen i" using sn by auto
            have m: "nat (if start \<le> off then ?len - off + (start - off) else start - off)
                     < nat (if start \<le> s then ?len - s + (start - off) else start - s)"
              using lt p1 wrap by auto
            have "\<exists>res. host_scan dc seen off start off = Some res \<and>
                    (0 \<le> off \<longrightarrow> scan_post dc seen off res)"
              using less.hyps[OF m] lt all1 all2 by auto
            then show ?thesis using step wrap False n sn by simp
          qed
        qed
      qed
    next
      case nowrap: False
      then have b: "s + 1 < ?len" "s + 1 \<noteq> start" "0 \<le> s + 1" using p1 s0 by auto
      then have n: "nth_js dc (s + 1) = Some (dc ! nat (s + 1))" by (simp add: nth_js_def)
      show ?thesis
      proof (cases "?seen (s + 1)")
        case unseen: False
        have "off \<le> s + 1" using p1 os by simp
        then show ?thesis using step nowrap b n unseen
          by (simp add: scan_post_def)
      next
        case sn: True
        have all1: "\<forall>i. start \<le> i \<and> i \<le> s + 1 \<longrightarrow> ?seen i"
        proof (intro allI impI)
          fix i assume "start \<le> i \<and> i \<le> s + 1"
          then have "(start \<le> i \<and> i \<le> s) \<or> i = s + 1" by auto
          then show "?seen i" using p1(3) sn by auto
        qed
        have m: "nat (if start \<le> s + 1 then ?len - (s + 1) + (start - off) else start - (s + 1))
                 < nat (if start \<le> s then ?len - s + (start - off) else start - s)"
          using p1 os b by auto
        have "\<exists>res. host_scan dc seen off start (s + 1) = Some res \<and>
                (0 \<le> off \<longrightarrow> scan_post dc seen off res)"
          using less.hyps[OF m] p1 b all1 by auto
        then show ?thesis using step nowrap b n sn by simp
      qed
    qed
  next
    case p2
    have nowrap: "s + 1 \<noteq> ?len" using p2 sl by auto
    show ?thesis
    proof (cases "s + 1 = start")
      case True
      have "\<forall>i. off \<le> i \<and> i < ?len \<longrightarrow> ?seen i"
      proof (intro allI impI)
        fix i assume "off \<le> i \<and> i < ?len"
        then have "(off \<le> i \<and> i \<le> s) \<or> (start \<le> i \<and> i < ?len)" using True by auto
        then show "?seen i" using p2 by blast
      qed
      then show ?thesis using step nowrap True by (simp add: scan_post_def)
    next
      case False
      then have lt: "s + 1 < start" using p2 by simp
      show ?thesis
      proof (cases "0 \<le> s + 1")
        case neg: False
        then have "nth_js dc (s + 1) = None" by (simp add: nth_js_def)
        moreover have "\<not> 0 \<le> off" using neg p2 by auto
        ultimately show ?thesis using step nowrap False by simp
      next
        case nn: True
        then have n: "nth_js dc (s + 1) = Some (dc ! nat (s + 1))" using lt sl
          by (simp add: nth_js_def)
        show ?thesis
        proof (cases "?seen (s + 1)")
          case unseen: False
          have "off \<le> s + 1" "s + 1 < ?len" using p2 lt sl by auto
          then show ?thesis using step nowrap False n unseen by (simp add: scan_post_def)
        next
          case sn: True
          have all2: "\<forall>i. off \<le> i \<and> i \<le> s + 1 \<longrightarrow> ?seen i"
          proof (intro allI impI)
            fix i assume "off \<le> i \<and> i \<le> s + 1"
            then have "(off \<le> i \<and> i \<le> s) \<or> i = s + 1" by auto
            then show "?seen i" using p2(4) sn by auto
          qed
          have m: "nat (if start \<le> s + 1 then ?len - (s + 1) + (start - off) else start - (s + 1))
                   < nat (if start \<le> s then ?len - s + (start - off) else start - s)"
            using p2 lt by auto
          have "\<exists>res. host_scan dc seen off start (s + 1) = Some res \<and>
                  (0 \<le> off \<longrightarrow> scan_post dc seen off res)"
            using less.hyps[OF m] p2 lt all2 by auto
          then show ?thesis using step nowrap False n sn by simp
        qed
      qed
    qed
  qed
qed

text \<open>
  \<open>random(off, len - 1)\<close> stays in the sub-range when there is one, reaches each of
  its indices, and falls beyond the array when the offset does.
\<close>

lemma random_in_range:
  "off < len \<Longrightarrow> off \<le> random r off (len - 1) \<and> random r off (len - 1) < len"
proof -
  assume a: "off < len"
  have b: "0 \<le> int r mod (len - off)" "int r mod (len - off) < len - off"
    using a by simp_all
  have "random r off (len - 1) = int r mod (len - off) + off"
    using a by (simp add: random_def floor_random_def)
  with b show ?thesis by linarith
qed

lemma random_past_end:
  "\<not> off < len \<Longrightarrow> len \<le> random r off (len - 1)"
proof -
  assume a: "\<not> off < len"
  have "int r mod (1 + off - len) < 1 + off - len" using a by (intro pos_mod_bound) simp
  then show ?thesis using a by (simp add: random_def floor_random_def algebra_simps)
qed

lemma random_reaches:
  "off \<le> i \<Longrightarrow> i < len \<Longrightarrow> random (nat (i - off)) off (len - 1) = i"
  by (simp add: random_def floor_random_def)

lemma host_pick_post:
  "\<exists>res. host_pick dc seen off r = Some res \<and>
         (0 \<le> off \<and> off < int (length dc) \<longrightarrow> scan_post dc seen off res)"
proof (cases "off < int (length dc)")
  case False
  then have "int (length dc) \<le> random r off (int (length dc) - 1)" by (rule random_past_end)
  then have "nth_js dc (random r off (int (length dc) - 1)) = None" by (simp add: nth_js_def)
  then show ?thesis using False by (simp add: host_pick_def)
next
  case True
  define s where "s = random r off (int (length dc) - 1)"
  have rng: "off \<le> s" "s < int (length dc)" using random_in_range[OF True, of r] by (simp_all add: s_def)
  show ?thesis
  proof (cases "0 \<le> s")
    case False
    then have "nth_js dc s = None" by (simp add: nth_js_def)
    moreover have "\<not> 0 \<le> off" using False rng by simp
    ultimately show ?thesis by (simp add: host_pick_def s_def[symmetric])
  next
    case nn: True
    then have n: "nth_js dc s = Some (dc ! nat s)" using rng by (simp add: nth_js_def)
    show ?thesis
    proof (cases "manta_storage_id (dc ! nat s) \<in> set seen")
      case False
      then show ?thesis using n rng by (simp add: host_pick_def s_def[symmetric] scan_post_def)
    next
      case sn: True
      have "\<exists>res. host_scan dc seen off s s = Some res \<and>
              (0 \<le> off \<longrightarrow> scan_post dc seen off res)"
        by (rule host_scan_returns_aux[OF rng(1) nn rng(2)]) (use sn rng in auto)
      then obtain res where "host_scan dc seen off s s = Some res"
          "0 \<le> off \<longrightarrow> scan_post dc seen off res" by blast
      then show ?thesis using n sn by (simp add: host_pick_def s_def[symmetric])
    qed
  qed
qed

text \<open>
  Claim C8. For every array \<open>dc\<close> of one datacenter, every offset, every \<open>seen\<close> and
  every random draw, the choice of a shark ends. For every qualifying start offset
  \<open>off\<close> (an index of \<open>dc\<close>) it ends without an exception: it starts at a random
  index of the sub-range \<open>[off, dc.length)\<close>, and it returns either the index, inside
  that sub-range, of a shark whose id is not in \<open>seen\<close>, or \<open>null\<close>, and this only
  when the circular scan (which wraps from the end of the array to \<open>off\<close>) has found
  every shark of the sub-range in \<open>seen\<close>.
\<close>

theorem host_pick_terminates:
  "(\<exists>res. host_pick dc seen off r = Some res) \<and>
   (0 \<le> off \<and> off < int (length dc) \<longrightarrow>
      off \<le> random r off (int (length dc) - 1) \<and>
      random r off (int (length dc) - 1) < int (length dc) \<and>
      (\<exists>res. host_pick dc seen off r = Some (Inr res) \<and>
         (case res of
            Some s \<Rightarrow> off \<le> s \<and> s < int (length dc) \<and>
                      manta_storage_id (dc ! nat s) \<notin> set seen
          | None \<Rightarrow> \<forall>i. off \<le> i \<and> i < int (length dc) \<longrightarrow>
                      manta_storage_id (dc ! nat i) \<in> set seen)))"
proof (intro conjI impI)
  show "\<exists>res. host_pick dc seen off r = Some res"
    using host_pick_post[of dc seen off r] by blast
next
  assume a: "0 \<le> off \<and> off < int (length dc)"
  then show "off \<le> random r off (int (length dc) - 1)"
    and "random r off (int (length dc) - 1) < int (length dc)"
    using random_in_range[of off "int (length dc)" r] by simp_all
  obtain res where r: "host_pick dc seen off r = Some res" "scan_post dc seen off res"
    using host_pick_post[of dc seen off r] a by blast
  from r(2) obtain res' where "res = Inr res'" by (cases res) (auto simp: scan_post_def)
  with r have "host_pick dc seen off r = Some (Inr res') \<and>
            (case res' of
               Some s \<Rightarrow> off \<le> s \<and> s < int (length dc) \<and>
                         manta_storage_id (dc ! nat s) \<notin> set seen
             | None \<Rightarrow> \<forall>i. off \<le> i \<and> i < int (length dc) \<longrightarrow>
                         manta_storage_id (dc ! nat i) \<in> set seen)"
    by (cases res') (auto simp: scan_post_def)
  then show "\<exists>res. host_pick dc seen off r = Some (Inr res) \<and>
         (case res of
            Some s \<Rightarrow> off \<le> s \<and> s < int (length dc) \<and>
                      manta_storage_id (dc ! nat s) \<notin> set seen
          | None \<Rightarrow> \<forall>i. off \<le> i \<and> i < int (length dc) \<longrightarrow>
                      manta_storage_id (dc ! nat i) \<in> set seen)"
    by blast
qed

theorem host_pick_terminates_witness:
  "(0::int) \<le> 0 \<and> (0::int) < int (length example_list) \<and>
   host_pick example_list [] 0 1 = Some (Inr (Some 1)) \<and>
   host_pick example_list [''a2''] 0 1 = Some (Inr (Some 0)) \<and>
   host_pick example_list [''a2'', ''a1''] 0 1 = Some (Inr None)"
proof -
  have e: "host_pick example_list [] 0 1 = Some (Inr (Some 1))"
    "host_pick example_list [''a2''] 0 1 = Some (Inr (Some 0))"
    "host_pick example_list [''a2'', ''a1''] 0 1 = Some (Inr None)"
    by code_simp+
  have h: "(0::int) \<le> 0 \<and> (0::int) < int (length example_list)"
    by (simp add: example_list_def)
  show ?thesis
    using e h host_pick_terminates[of example_list "[''a2'', ''a1'']" 0 1] by simp
qed

section \<open>Invariants of host, set and the loop of choose\<close>

text \<open>An index that the scan returns holds a shark that has not been seen.\<close>

lemma host_scan_result_aux:
  assumes "host_scan dc seen off start s = Some y"
  shows "\<forall>s'. y = Inr (Some s') \<longrightarrow>
           (\<exists>sh. nth_js dc s' = Some sh \<and> manta_storage_id sh \<notin> set seen)"
  by (rule host_scan.raw_induct[OF _ assms])
     (auto simp: Let_def split: if_splits option.splits)

lemma host_pick_result:
  assumes "host_pick dc seen off r = Some (Inr (Some s))"
  shows "\<exists>sh. nth_js dc s = Some sh \<and> manta_storage_id sh \<notin> set seen"
  using assms host_scan_result_aux
  unfolding host_pick_def Let_def
  by (fastforce split: option.splits if_splits)

lemma host_pick_from_offset:
  assumes "host_pick dc seen off r = Some (Inr (Some s))"
    and "0 \<le> off" and "off < int (length dc)"
  shows "off \<le> s"
  using host_pick_post[of dc seen off r] assms by (auto simp: scan_post_def)

text \<open>\<open>host()\<close> returns, whatever the arrays and the cursor are.\<close>

lemma host_returns:
  "\<exists>out st'. host sharkMap dcs offs st = Some (out, st') \<and>
             host_post sharkMap dcs offs st out st'"
proof -
  define ndx where "ndx = (if bs_dcIndex st + 1 \<ge> int (length dcs) then 0 else bs_dcIndex st + 1)"
  define st1 where "st1 = st\<lparr>bs_dcIndex := ndx\<rparr>"
  have seen1: "bs_seen st1 = bs_seen st" by (simp add: st1_def)
  have h: "host sharkMap dcs offs st =
     (case sharkMap of
           None \<Rightarrow> Some (Inl TypeError, st1)
         | Some m \<Rightarrow>
            (case nth_js dcs ndx of
               None \<Rightarrow> Some (Inl TypeError, st1)
             | Some name \<Rightarrow>
                (case map_of m name of
                   None \<Rightarrow> Some (Inl TypeError, st1)
                 | Some dc \<Rightarrow>
                    (case nth_js offs ndx of
                       None \<Rightarrow> Some (Inl TypeError, st1)
                     | Some off \<Rightarrow>
                        (case draw (bs_rand st1) of (r, rs') \<Rightarrow>
                           (let st2 = st1\<lparr>bs_rand := rs'\<rparr>
                            in case host_pick dc (bs_seen st2) off r of
                                 None \<Rightarrow> None
                               | Some (Inl e) \<Rightarrow> Some (Inl e, st2)
                               | Some (Inr None) \<Rightarrow> Some (Inr None, st2)
                               | Some (Inr (Some s)) \<Rightarrow>
                                  (case nth_js dc s of
                                     None \<Rightarrow> Some (Inl TypeError, st2)
                                   | Some sh \<Rightarrow>
                                      Some (Inr (Some \<lparr>hr_datacenter = datacenter sh,
                                                  hr_manta_storage_id = manta_storage_id sh\<rparr>),
                                            st2\<lparr>bs_seen :=
                                                  bs_seen st2 @ [manta_storage_id sh]\<rparr>))))))))"
    unfolding host_def ndx_def st1_def Let_def by (rule refl)
  show ?thesis
  proof (cases sharkMap)
    case None
    then show ?thesis using h seen1 by (simp add: host_post_def)
  next
    case (Some m)
    show ?thesis
    proof (cases "nth_js dcs ndx")
      case None
      then show ?thesis using h Some seen1 by (simp add: host_post_def)
    next
      case name: (Some name)
      show ?thesis
      proof (cases "map_of m name")
        case None
        then show ?thesis using h Some name seen1 by (simp add: host_post_def)
      next
        case dc: (Some dc)
        show ?thesis
        proof (cases "nth_js offs ndx")
          case None
          then show ?thesis using h Some name dc seen1 by (simp add: host_post_def)
        next
          case off: (Some off)
          obtain r rs' where d: "draw (bs_rand st1) = (r, rs')" by (cases "draw (bs_rand st1)")
          define st2 where "st2 = st1\<lparr>bs_rand := rs'\<rparr>"
          have seen2: "bs_seen st2 = bs_seen st" by (simp add: st2_def seen1)
          obtain res where res: "host_pick dc (bs_seen st) off r = Some res"
            using host_pick_post[of dc "bs_seen st" off r] by blast
          have h2: "host sharkMap dcs offs st =
             (case res of
                Inl e \<Rightarrow> Some (Inl e, st2)
              | Inr None \<Rightarrow> Some (Inr None, st2)
              | Inr (Some s) \<Rightarrow>
                  (case nth_js dc s of
                     None \<Rightarrow> Some (Inl TypeError, st2)
                   | Some sh \<Rightarrow>
                      Some (Inr (Some \<lparr>hr_datacenter = datacenter sh,
                                  hr_manta_storage_id = manta_storage_id sh\<rparr>),
                            st2\<lparr>bs_seen := bs_seen st @ [manta_storage_id sh]\<rparr>)))"
            using h Some name dc off d res
            by (simp add: st2_def seen1 Let_def split: sum.splits option.splits)
          show ?thesis
          proof (cases res)
            case (Inl e)
            then show ?thesis using h2 seen2 by (simp add: host_post_def)
          next
            case (Inr o1)
            show ?thesis
            proof (cases o1)
              case None
              then show ?thesis using h2 Inr seen2 by (simp add: host_post_def)
            next
              case s: (Some s)
              obtain sh where sh: "nth_js dc s = Some sh" "manta_storage_id sh \<notin> set (bs_seen st)"
                using host_pick_result[of dc "bs_seen st" off r s] res Inr s by auto
              have le: "0 \<le> off \<and> off < int (length dc) \<longrightarrow> off \<le> s"
                using host_pick_from_offset[of dc "bs_seen st" off r s] res Inr s by auto
              have "picked_from m dcs offs \<lparr>hr_datacenter = datacenter sh,
                      hr_manta_storage_id = manta_storage_id sh\<rparr>"
                unfolding picked_from_def using name dc off sh(1) le by blast
              then show ?thesis using h2 Inr s sh Some by (simp add: host_post_def)
            qed
          qed
        qed
      qed
    qed
  qed
qed

lemma set_loop_returns:
  "\<exists>out st'. set_loop sharkMap dcs offs n acc st = Some (out, st') \<and>
             set_post sharkMap dcs offs n acc st out st'"
proof (induction n arbitrary: acc st)
  case 0
  then show ?case by (simp add: set_post_def)
next
  case (Suc n)
  obtain out1 st1 where h: "host sharkMap dcs offs st = Some (out1, st1)"
      "host_post sharkMap dcs offs st out1 st1"
    using host_returns[of sharkMap dcs offs st] by blast
  show ?case
  proof (cases out1)
    case (Inl e)
    then show ?thesis using h by (simp add: set_post_def host_post_def)
  next
    case (Inr o1)
    show ?thesis
    proof (cases o1)
      case None
      then show ?thesis using h Inr by (simp add: set_post_def host_post_def)
    next
      case (Some hr)
      from h(2) Inr Some have hp: "hr_manta_storage_id hr \<notin> set (bs_seen st)"
          "bs_seen st1 = bs_seen st @ [hr_manta_storage_id hr]"
          "\<exists>m. sharkMap = Some m \<and> picked_from m dcs offs hr"
        by (simp_all add: host_post_def)
      obtain out2 st2 where r: "set_loop sharkMap dcs offs n (acc @ [hr]) st1 = Some (out2, st2)"
          "set_post sharkMap dcs offs n (acc @ [hr]) st1 out2 st2"
        using Suc.IH[of "acc @ [hr]" st1] by blast
      have eq: "set_loop sharkMap dcs offs (Suc n) acc st = Some (out2, st2)"
        using h(1) Inr Some r(1) by simp
      have "set_post sharkMap dcs offs (Suc n) acc st out2 st2"
      proof (cases out2)
        case (Inl e)
        then show ?thesis using r(2) hp(2) by (auto simp: set_post_def)
      next
        case i2: (Inr o2)
        show ?thesis
        proof (cases o2)
          case None
          then show ?thesis using r(2) hp(2) i2 by (auto simp: set_post_def)
        next
          case t: (Some t)
          from r(2) i2 t obtain new where new: "t = (acc @ [hr]) @ new" "length new = n"
              "bs_seen st2 = bs_seen st1 @ map hr_manta_storage_id new"
              "distinct (map hr_manta_storage_id new)"
              "set (map hr_manta_storage_id new) \<inter> set (bs_seen st1) = {}"
              "\<forall>h\<in>set new. \<exists>m. sharkMap = Some m \<and> picked_from m dcs offs h"
            by (auto simp: set_post_def)
          have "t = acc @ (hr # new)" using new(1) by simp
          moreover have "length (hr # new) = Suc n" using new(2) by simp
          moreover have "bs_seen st2 = bs_seen st @ map hr_manta_storage_id (hr # new)"
            using new(3) hp(2) by simp
          moreover have "distinct (map hr_manta_storage_id (hr # new))"
            using new(4,5) hp(2) by auto
          moreover have "set (map hr_manta_storage_id (hr # new)) \<inter> set (bs_seen st) = {}"
            using new(5) hp(1,2) by auto
          moreover have "\<forall>h\<in>set (hr # new). \<exists>m. sharkMap = Some m \<and> picked_from m dcs offs h"
            using new(6) hp(3) by auto
          ultimately show ?thesis using i2 t unfolding set_post_def by (simp only: sum.case option.case) blast
        qed
      qed
      with eq show ?thesis by blast
    qed
  qed
qed

lemma set_js_returns:
  "\<exists>out st'. set_js sharkMap dcs offs replicas st = Some (out, st') \<and>
             set_post sharkMap dcs offs (nat replicas) [] st out st'"
  unfolding set_js_def by (rule set_loop_returns)

lemma set_post_seen_mono:
  "set_post sharkMap dcs offs n acc st out st' \<Longrightarrow> set (bs_seen st) \<subseteq> set (bs_seen st')"
  by (auto simp: set_post_def split: sum.splits option.splits)

lemma choose_loop_returns:
  "\<exists>out st'. choose_loop sharkMap dcs offs replicas multi size' stats k sharks st = Some (out, st') \<and>
             loop_post sharkMap dcs offs replicas multi size' stats k sharks st out st' \<and>
             set (bs_seen st) \<subseteq> set (bs_seen st')"
proof (induction k arbitrary: sharks st)
  case 0
  then show ?case by (simp add: loop_post_def)
next
  case (Suc k)
  obtain o1 st1 where sj: "set_js sharkMap dcs offs replicas st = Some (o1, st1)"
      "set_post sharkMap dcs offs (nat replicas) [] st o1 st1"
    using set_js_returns[of sharkMap dcs offs replicas st] by blast
  have mono1: "set (bs_seen st) \<subseteq> set (bs_seen st1)" using sj(2) by (rule set_post_seen_mono)
  show ?case
  proof (cases o1)
    case (Inl e)
    then show ?thesis using sj(1) mono1 by (simp add: loop_post_def)
  next
    case (Inr tuple)
    show ?thesis
    proof (cases tuple)
      case None
      show ?thesis
      proof (cases "sharks = []")
        case True
        then show ?thesis using sj(1) Inr None mono1 by (simp add: loop_post_def)
      next
        case False
        obtain out st2 where ih:
            "choose_loop sharkMap dcs offs replicas multi size' stats k sharks st1 = Some (out, st2)"
            "loop_post sharkMap dcs offs replicas multi size' stats k sharks st1 out st2"
            "set (bs_seen st1) \<subseteq> set (bs_seen st2)"
          using Suc.IH[of sharks st1] by blast
        have eq: "choose_loop sharkMap dcs offs replicas multi size' stats (Suc k) sharks st =
                  Some (out, st2)"
          using sj(1) Inr None False ih(1) by simp
        have "loop_post sharkMap dcs offs replicas multi size' stats (Suc k) sharks st out st2"
        proof (cases out)
          case (Callback_ok sharks' stats')
          with ih(2) obtain new where new: "stats' = stats" "sharks' = sharks @ new"
              "length new \<le> k"
              "\<forall>t\<in>set new. tuple_ok sharkMap dcs offs replicas multi t"
              "distinct (concat (map (map hr_manta_storage_id) new))"
              "set (concat (map (map hr_manta_storage_id) new)) \<inter> set (bs_seen st1) = {}"
              "set (concat (map (map hr_manta_storage_id) new)) \<subseteq> set (bs_seen st2)"
            by (auto simp: loop_post_def)
          have "set (concat (map (map hr_manta_storage_id) new)) \<inter> set (bs_seen st) = {}"
            using new(6) mono1 by blast
          moreover have "length new \<le> Suc k" using new(3) by simp
          ultimately show ?thesis using Callback_ok new False
            unfolding loop_post_def by (simp only: outcome.case) blast
        next
          case (Callback_err e stats')
          then show ?thesis using ih(2) by (simp add: loop_post_def)
        next
          case (Throws e)
          then show ?thesis by (simp add: loop_post_def)
        qed
        then show ?thesis using eq ih(3) mono1 by blast
      qed
    next
      case (Some t)
      from sj(2) Inr Some have t: "length t = nat replicas"
          "bs_seen st1 = bs_seen st @ map hr_manta_storage_id t"
          "distinct (map hr_manta_storage_id t)"
          "set (map hr_manta_storage_id t) \<inter> set (bs_seen st) = {}"
          "\<forall>h\<in>set t. \<exists>m. sharkMap = Some m \<and> picked_from m dcs offs h"
        by (auto simp: set_post_def)
      have notless: "\<not> int (length t) < replicas" using t(1) by simp
      show ?thesis
      proof (cases "multi \<and> replicas > 1 \<and> length (foldl reduceFun [] (map mapFun t)) < 2")
        case True
        then show ?thesis using sj(1) Inr Some notless mono1 by (simp add: loop_post_def)
      next
        case False
        obtain out st2 where ih:
            "choose_loop sharkMap dcs offs replicas multi size' stats k (sharks @ [t]) st1 =
               Some (out, st2)"
            "loop_post sharkMap dcs offs replicas multi size' stats k (sharks @ [t]) st1 out st2"
            "set (bs_seen st1) \<subseteq> set (bs_seen st2)"
          using Suc.IH[of "sharks @ [t]" st1] by blast
        have eq: "choose_loop sharkMap dcs offs replicas multi size' stats (Suc k) sharks st =
                  Some (out, st2)"
          using sj(1) Inr Some notless False ih(1) by auto
        have tok: "tuple_ok sharkMap dcs offs replicas multi t"
          using t(1,5) False unfolding tuple_ok_def by auto
        have "loop_post sharkMap dcs offs replicas multi size' stats (Suc k) sharks st out st2"
        proof (cases out)
          case (Callback_ok sharks' stats')
          with ih(2) obtain new where new: "stats' = stats" "sharks' = (sharks @ [t]) @ new"
              "length new \<le> k"
              "\<forall>t\<in>set new. tuple_ok sharkMap dcs offs replicas multi t"
              "distinct (concat (map (map hr_manta_storage_id) new))"
              "set (concat (map (map hr_manta_storage_id) new)) \<inter> set (bs_seen st1) = {}"
              "set (concat (map (map hr_manta_storage_id) new)) \<subseteq> set (bs_seen st2)"
            by (auto simp: loop_post_def)
          have a: "sharks' = sharks @ (t # new)" using new(2) by simp
          have b: "length (t # new) \<le> Suc k" using new(3) by simp
          have c: "\<forall>u\<in>set (t # new). tuple_ok sharkMap dcs offs replicas multi u"
            using new(4) tok by simp
          have d: "distinct (concat (map (map hr_manta_storage_id) (t # new)))"
            using new(5,6) t(2,3) by auto
          have e: "set (concat (map (map hr_manta_storage_id) (t # new))) \<inter> set (bs_seen st) = {}"
            using new(6) t(2,4) by auto
          have f: "set (concat (map (map hr_manta_storage_id) (t # new))) \<subseteq> set (bs_seen st2)"
            using new(7) t(2) ih(3) by auto
          have g: "t # new \<noteq> []" by simp
          show ?thesis using Callback_ok new(1) a b c d e f g
            unfolding loop_post_def by (simp only: outcome.case) blast
        next
          case (Callback_err e stats')
          then show ?thesis using ih(2) by (simp add: loop_post_def)
        next
          case (Throws e)
          then show ?thesis by (simp add: loop_post_def)
        qed
        then show ?thesis using eq ih(3) mono1 by blast
      qed
    qed
  qed
qed

section \<open>The filter and the call as a whole\<close>

lemma lower_bound_qualifies:
  assumes "map_of m name = Some xs" and "sorted (map availableMB xs)"
  shows "\<exists>r. lower_bound (map_of m name) (Some sz) None None = Inr r \<and>
             offset_of m sz name = r \<and>
             (r \<noteq> - 1) = qualifies m sz name \<and>
             (qualifies m sz name \<longrightarrow> 0 \<le> r \<and> r < int (length xs) \<and>
                (\<forall>j. nat r \<le> j \<and> j < length xs \<longrightarrow> sz \<le> availableMB (xs ! j)))"
proof -
  obtain r where r: "lower_bound (Some xs) (Some sz) None None = Inr r"
      "if \<exists>sh\<in>set xs. sz \<le> availableMB sh
       then 0 \<le> r \<and> r < int (length xs) \<and>
            (\<forall>j. j < nat r \<longrightarrow> availableMB (xs ! j) < sz) \<and>
            (\<forall>j. nat r \<le> j \<and> j < length xs \<longrightarrow> sz \<le> availableMB (xs ! j))
       else r = - 1"
    using lower_bound_spec[OF assms(2), of sz] by blast
  have q: "qualifies m sz name = (\<exists>sh\<in>set xs. sz \<le> availableMB sh)"
    using assms(1) by (simp add: qualifies_def list_ex_iff)
  show ?thesis
  proof (cases "\<exists>sh\<in>set xs. sz \<le> availableMB sh")
    case True
    with r(2) have "0 \<le> r" "r < int (length xs)"
      "\<forall>j. nat r \<le> j \<and> j < length xs \<longrightarrow> sz \<le> availableMB (xs ! j)" by auto
    then show ?thesis using r(1) q True assms(1) by (auto simp: offset_of_def)
  next
    case False
    with r(2) have "r = - 1" by simp
    then show ?thesis using r(1) q False assms(1) by (auto simp: offset_of_def)
  qed
qed

lemma forEach_filterDatacenters_result:
  assumes "sorted_map m names"
  shows "forEach_filterDatacenters (Some m) (Some sz) names acc =
           Inr (fst acc @ filter (qualifies m sz) names,
                snd acc @ map (offset_of m sz) (filter (qualifies m sz) names))"
  using assms
proof (induction names arbitrary: acc)
  case Nil
  then show ?case by simp
next
  case (Cons name names)
  from Cons.prems obtain xs where xs: "map_of m name = Some xs" "sorted (map availableMB xs)"
    and rest: "sorted_map m names"
    by (auto simp: sorted_map_def split: option.splits)
  obtain r where r: "lower_bound (map_of m name) (Some sz) None None = Inr r"
      "offset_of m sz name = r" "(r \<noteq> - 1) = qualifies m sz name"
    using lower_bound_qualifies[OF xs, of sz] by blast
  show ?case
  proof (cases "qualifies m sz name")
    case True
    then have "filterDatacenters (Some m) (Some sz) acc name = Inr (fst acc @ [name], snd acc @ [r])"
      using r by (simp add: filterDatacenters_def)
    then show ?thesis using Cons.IH[OF rest, of "(fst acc @ [name], snd acc @ [r])"] True r(2)
      by simp
  next
    case False
    then have "filterDatacenters (Some m) (Some sz) acc name = Inr acc"
      using r by (simp add: filterDatacenters_def)
    then show ?thesis using Cons.IH[OF rest, of acc] False by simp
  qed
qed

lemma choose_js_ok:
  assumes "choose_js c opts rs = Some (Callback_ok sharks stats, c')"
  shows "\<exists>st0 st. bs_seen st0 = [] \<and>
           loop_post (request_map c opts) (dcsInUse stats) (offsets stats) (choose_replicas opts)
             (multiDC c) (choose_size c opts) stats 3 [] st0 (Callback_ok sharks stats) st \<and>
           c' = c\<lparr>dcIndex := bs_dcIndex st\<rparr>"
proof -
  from assms obtain ns dcs offs dcs' rs' st where
    a: "request_names c opts = Some ns"
       "shuffle dcs rs = (dcs', rs')"
       "choose_loop (request_map c opts) dcs' offs (choose_replicas opts) (multiDC c)
          (choose_size c opts) \<lparr>dcsInUse = dcs', offsets = offs\<rparr> 3 []
          \<lparr>bs_dcIndex = dcIndex c, bs_seen = [], bs_rand = rs'\<rparr> = Some (Callback_ok sharks stats, st)"
       "c' = c\<lparr>dcIndex := bs_dcIndex st\<rparr>"
    unfolding choose_js_def Let_def request_map_def request_names_def
    by (auto split: option.splits sum.splits prod.splits)
  define st0 where "st0 = \<lparr>bs_dcIndex = dcIndex c, bs_seen = [], bs_rand = rs'\<rparr>"
  obtain out st2 where l:
      "choose_loop (request_map c opts) dcs' offs (choose_replicas opts) (multiDC c)
          (choose_size c opts) \<lparr>dcsInUse = dcs', offsets = offs\<rparr> 3 [] st0 = Some (out, st2)"
      "loop_post (request_map c opts) dcs' offs (choose_replicas opts) (multiDC c)
          (choose_size c opts) \<lparr>dcsInUse = dcs', offsets = offs\<rparr> 3 [] st0 out st2"
    using choose_loop_returns[of "request_map c opts" dcs' offs "choose_replicas opts" "multiDC c"
        "choose_size c opts" "\<lparr>dcsInUse = dcs', offsets = offs\<rparr>" 3 "[]" st0] by blast
  from l(1) a(3) have eq: "out = Callback_ok sharks stats" "st2 = st" by (simp_all add: st0_def)
  with l(2) have se: "\<lparr>dcsInUse = dcs', offsets = offs\<rparr> = stats" by (simp add: loop_post_def)
  then have "dcsInUse stats = dcs'" "offsets stats = offs" by auto
  with l(2) eq se have "loop_post (request_map c opts) (dcsInUse stats) (offsets stats)
      (choose_replicas opts) (multiDC c) (choose_size c opts) stats 3 [] st0
      (Callback_ok sharks stats) st"
    by simp
  moreover have "bs_seen st0 = []" by (simp add: st0_def)
  ultimately show ?thesis using a(4) by blast
qed

lemma choose_js_ok_sets:
  assumes "choose_js c opts rs = Some (Callback_ok sharks stats, c')"
  shows "sharks \<noteq> []" and "length sharks \<le> 3"
    and "\<forall>t\<in>set sharks. tuple_ok (request_map c opts) (dcsInUse stats) (offsets stats)
                          (choose_replicas opts) (multiDC c) t"
    and "distinct (concat (map (map hr_manta_storage_id) sharks))"
    and "c' = c\<lparr>dcIndex := dcIndex c'\<rparr>"
proof -
  obtain st0 st where p: "bs_seen st0 = []"
      "loop_post (request_map c opts) (dcsInUse stats) (offsets stats) (choose_replicas opts)
             (multiDC c) (choose_size c opts) stats 3 [] st0 (Callback_ok sharks stats) st"
      "c' = c\<lparr>dcIndex := bs_dcIndex st\<rparr>"
    using choose_js_ok[OF assms] by blast
  from p(2) obtain new where new: "sharks = [] @ new" "length new \<le> 3" "new \<noteq> []"
      "\<forall>t\<in>set new. tuple_ok (request_map c opts) (dcsInUse stats) (offsets stats)
                          (choose_replicas opts) (multiDC c) t"
      "distinct (concat (map (map hr_manta_storage_id) new))"
    by (auto simp: loop_post_def)
  then show "sharks \<noteq> []" "length sharks \<le> 3"
    "\<forall>t\<in>set sharks. tuple_ok (request_map c opts) (dcsInUse stats) (offsets stats)
                          (choose_replicas opts) (multiDC c) t"
    "distinct (concat (map (map hr_manta_storage_id) sharks))"
    by simp_all
  show "c' = c\<lparr>dcIndex := dcIndex c'\<rparr>" using p(3) by simp
qed

lemma choose_js_alt:
  "choose_js c opts rs =
     (case request_names c opts of
        None \<Rightarrow> Some (Throws TypeError, c)
      | Some ns \<Rightarrow>
         (case forEach_filterDatacenters (request_map c opts) (choose_size c opts) ns ([], []) of
            Inl e \<Rightarrow> Some (Throws e, c)
          | Inr (dcs, offs) \<Rightarrow>
             (case enoughDCs_cause (choose_replicas opts) (multiDC c) (length dcs) of
                Some cause \<Rightarrow>
                  Some (Callback_err (NotEnoughSpaceError (choose_size c opts) cause)
                          \<lparr>dcsInUse = dcs, offsets = offs\<rparr>, c)
              | None \<Rightarrow>
                 (case choose_loop (request_map c opts) (fst (shuffle dcs rs)) offs
                         (choose_replicas opts) (multiDC c) (choose_size c opts)
                         \<lparr>dcsInUse = fst (shuffle dcs rs), offsets = offs\<rparr> 3 []
                         \<lparr>bs_dcIndex = dcIndex c, bs_seen = [],
                          bs_rand = snd (shuffle dcs rs)\<rparr> of
                    None \<Rightarrow> None
                  | Some (out, st) \<Rightarrow> Some (out, c\<lparr>dcIndex := bs_dcIndex st\<rparr>)))))"
  unfolding choose_js_def Let_def request_map_def request_names_def
  by (simp split: option.splits sum.splits prod.splits)

lemma choose_js_returns:
  "\<exists>out c'. choose_js c opts rs = Some (out, c')"
proof (cases "request_names c opts")
  case None
  then show ?thesis by (simp add: choose_js_alt)
next
  case (Some ns)
  show ?thesis
  proof (cases "forEach_filterDatacenters (request_map c opts) (choose_size c opts) ns ([], [])")
    case (Inl e)
    then show ?thesis using Some by (simp add: choose_js_alt)
  next
    case (Inr p)
    obtain dcs offs where p: "p = (dcs, offs)" by (cases p)
    show ?thesis
    proof (cases "enoughDCs_cause (choose_replicas opts) (multiDC c) (length dcs)")
      case (Some cause)
      then show ?thesis using \<open>request_names c opts = Some ns\<close> Inr p by (simp add: choose_js_alt)
    next
      case None
      obtain out st where "choose_loop (request_map c opts) (fst (shuffle dcs rs)) offs
                         (choose_replicas opts) (multiDC c) (choose_size c opts)
                         \<lparr>dcsInUse = fst (shuffle dcs rs), offsets = offs\<rparr> 3 []
                         \<lparr>bs_dcIndex = dcIndex c, bs_seen = [],
                          bs_rand = snd (shuffle dcs rs)\<rparr> = Some (out, st)"
        using choose_loop_returns by blast
      then show ?thesis using \<open>request_names c opts = Some ns\<close> Inr p None
        by (simp add: choose_js_alt)
    qed
  qed
qed

section \<open>The replica sets that choose returns\<close>

text \<open>\<open>tuple.map(mapFun).reduce(reduceFun, [])\<close> lists the datacenters of a tuple once each.\<close>

lemma reduceFun_foldl:
  "distinct acc \<Longrightarrow>
   distinct (foldl reduceFun acc xs) \<and> set (foldl reduceFun acc xs) = set acc \<union> set xs"
  by (induction xs arbitrary: acc) (auto simp: reduceFun_def)

lemma reduceFun_card:
  "length (foldl reduceFun [] (map mapFun t)) = card (hr_datacenter ` set t)"
proof -
  have "distinct (foldl reduceFun [] (map mapFun t))"
       "set (foldl reduceFun [] (map mapFun t)) = set (map mapFun t)"
    using reduceFun_foldl[of "[]" "map mapFun t"] by simp_all
  then have "length (foldl reduceFun [] (map mapFun t)) = card (set (map mapFun t))"
    by (metis distinct_card)
  then show ?thesis by (simp add: mapFun_def[abs_def])
qed

lemma set_js_tuple_length:
  assumes "set_js sharkMap dcs offs replicas st = Some (Inr (Some t), st')"
  shows "length t = nat replicas"
proof -
  obtain out st2 where r: "set_js sharkMap dcs offs replicas st = Some (out, st2)"
      "set_post sharkMap dcs offs (nat replicas) [] st out st2"
    using set_js_returns[of sharkMap dcs offs replicas st] by blast
  with assms have "out = Inr (Some t)" by simp
  with r(2) show ?thesis by (auto simp: set_post_def)
qed

lemma distinct_concat_nth:
  "distinct (concat xss) \<Longrightarrow> i < j \<Longrightarrow> j < length xss \<Longrightarrow> set (xss ! i) \<inter> set (xss ! j) = {}"
proof (induction xss arbitrary: i j)
  case Nil
  then show ?case by simp
next
  case (Cons xs xss)
  show ?case
  proof (cases i)
    case 0
    then obtain j' where j': "j = Suc j'" "j' < length xss" using Cons.prems by (cases j) auto
    then have "xss ! j' \<in> set xss" by simp
    then have "set (xss ! j') \<subseteq> \<Union> (set ` set xss)" by blast
    moreover have "set xs \<inter> \<Union> (set ` set xss) = {}" using Cons.prems(1) by simp
    ultimately have "set xs \<inter> set (xss ! j') = {}" by blast
    then show ?thesis using 0 j' by simp
  next
    case (Suc i')
    then obtain j' where j': "j = Suc j'" "j' < length xss" "i' < j'" using Cons.prems by (cases j) auto
    then show ?thesis using Cons.IH[of i' j'] Cons.prems(1) Suc by simp
  qed
qed

text \<open>
  Claim C3. In the result of a successful call of \<open>choose\<close> no storage id occurs twice:
  not inside one replica set and not in two of the sets. The array \<open>seen\<close> is shared
  by all sets of the call, and it is local to the call: of the client, the call changes
  \<open>dcIndex\<close> only, so the next call starts with nothing seen.
\<close>

theorem choose_never_repeats_a_node:
  assumes "choose_js c opts rs = Some (Callback_ok sharks stats, c')"
  shows "distinct (concat (map (map hr_manta_storage_id) sharks)) \<and>
         (\<forall>t\<in>set sharks. distinct (map hr_manta_storage_id t)) \<and>
         (\<forall>i j. i < j \<and> j < length sharks \<longrightarrow>
            hr_manta_storage_id ` set (sharks ! i) \<inter> hr_manta_storage_id ` set (sharks ! j) = {}) \<and>
         c' = c\<lparr>dcIndex := dcIndex c'\<rparr>"
proof -
  have d: "distinct (concat (map (map hr_manta_storage_id) sharks))"
    and c: "c' = c\<lparr>dcIndex := dcIndex c'\<rparr>"
    using choose_js_ok_sets[OF assms] by blast+
  have "\<forall>t\<in>set sharks. distinct (map hr_manta_storage_id t)"
    using d by (auto simp: distinct_concat_iff)
  moreover have "\<forall>i j. i < j \<and> j < length sharks \<longrightarrow>
            hr_manta_storage_id ` set (sharks ! i) \<inter> hr_manta_storage_id ` set (sharks ! j) = {}"
  proof (intro allI impI)
    fix i j assume ij: "i < j \<and> j < length sharks"
    then have "set (map (map hr_manta_storage_id) sharks ! i) \<inter>
               set (map (map hr_manta_storage_id) sharks ! j) = {}"
      using distinct_concat_nth[OF d, of i j] by simp
    then show "hr_manta_storage_id ` set (sharks ! i) \<inter>
               hr_manta_storage_id ` set (sharks ! j) = {}"
      using ij by simp
  qed
  ultimately show ?thesis using d c by blast
qed

theorem choose_never_repeats_a_node_witness:
  "choose_js example_client (request (Some 1) (Some 1)) [] =
     Some (Callback_ok
             [[\<lparr>hr_datacenter = ''dc2'', hr_manta_storage_id = ''b1''\<rparr>],
              [\<lparr>hr_datacenter = ''dc1'', hr_manta_storage_id = ''a1''\<rparr>],
              [\<lparr>hr_datacenter = ''dc2'', hr_manta_storage_id = ''b2''\<rparr>]]
             \<lparr>dcsInUse = [''dc2'', ''dc1''], offsets = [0, 0]\<rparr>,
           example_client\<lparr>dcIndex := 0\<rparr>) \<and>
   distinct [''b1'', ''a1'', ''b2''] \<and>
   map_option fst (choose_js (example_client\<lparr>dcIndex := 0\<rparr>) (request (Some 1) (Some 1)) []) =
     Some (Callback_ok
             [[\<lparr>hr_datacenter = ''dc1'', hr_manta_storage_id = ''a1''\<rparr>],
              [\<lparr>hr_datacenter = ''dc2'', hr_manta_storage_id = ''b1''\<rparr>],
              [\<lparr>hr_datacenter = ''dc1'', hr_manta_storage_id = ''a2''\<rparr>]]
             \<lparr>dcsInUse = [''dc2'', ''dc1''], offsets = [0, 0]\<rparr>)"
proof -
  have e: "choose_js example_client (request (Some 1) (Some 1)) [] =
     Some (Callback_ok
             [[\<lparr>hr_datacenter = ''dc2'', hr_manta_storage_id = ''b1''\<rparr>],
              [\<lparr>hr_datacenter = ''dc1'', hr_manta_storage_id = ''a1''\<rparr>],
              [\<lparr>hr_datacenter = ''dc2'', hr_manta_storage_id = ''b2''\<rparr>]]
             \<lparr>dcsInUse = [''dc2'', ''dc1''], offsets = [0, 0]\<rparr>,
           example_client\<lparr>dcIndex := 0\<rparr>)"
    by code_simp
  have f: "map_option fst (choose_js (example_client\<lparr>dcIndex := 0\<rparr>) (request (Some 1) (Some 1)) []) =
     Some (Callback_ok
             [[\<lparr>hr_datacenter = ''dc1'', hr_manta_storage_id = ''a1''\<rparr>],
              [\<lparr>hr_datacenter = ''dc2'', hr_manta_storage_id = ''b1''\<rparr>],
              [\<lparr>hr_datacenter = ''dc1'', hr_manta_storage_id = ''a2''\<rparr>]]
             \<lparr>dcsInUse = [''dc2'', ''dc1''], offsets = [0, 0]\<rparr>)"
    by code_simp
  show ?thesis using e f choose_never_repeats_a_node[OF e] by simp
qed

text \<open>
  Claim C6. Every call of \<open>choose\<close> ends (with an exception, an error for the callback
  or a result). A successful call returns one to three replica sets, each with
  exactly \<open>replicas\<close> members (for the replica count of a request, which is at least
  one, \<open>nat replicas\<close> is \<open>replicas\<close>). In the loop over the three sets, a \<open>null\<close>
  from \<open>set()\<close> while no set has been pushed ends the call with the NotEnoughSpaceError
  "copies requested exceeds number of available storage nodes"; a \<open>null\<close> after a set
  has been pushed is skipped, and the loop goes on with the sets as they are.
\<close>

theorem choose_result_shape:
  "(\<exists>out c0. choose_js c opts rs = Some (out, c0)) \<and>
   (choose_js c opts rs = Some (Callback_ok sharks stats, c') \<longrightarrow>
      1 \<le> length sharks \<and> length sharks \<le> 3 \<and>
      (\<forall>t\<in>set sharks. length t = nat (choose_replicas opts))) \<and>
   (set_js sharkMap dcs offs replicas st = Some (Inr None, st') \<longrightarrow>
      choose_loop sharkMap dcs offs replicas multi sz stats0 (Suc k) [] st =
        Some (Callback_err
                (NotEnoughSpaceError sz
                   ''copies requested exceeds number of available storage nodes'') stats0, st') \<and>
      (sharks0 \<noteq> [] \<longrightarrow>
         choose_loop sharkMap dcs offs replicas multi sz stats0 (Suc k) sharks0 st =
         choose_loop sharkMap dcs offs replicas multi sz stats0 k sharks0 st'))"
proof (intro conjI impI)
  show "\<exists>out c0. choose_js c opts rs = Some (out, c0)" by (rule choose_js_returns)
next
  assume a: "choose_js c opts rs = Some (Callback_ok sharks stats, c')"
  have ne: "sharks \<noteq> []" and le: "length sharks \<le> 3"
    and ok: "\<forall>t\<in>set sharks. tuple_ok (request_map c opts) (dcsInUse stats) (offsets stats)
                          (choose_replicas opts) (multiDC c) t"
    using choose_js_ok_sets[OF a] by blast+
  show "1 \<le> length sharks" using ne by (cases sharks) simp_all
  show "length sharks \<le> 3" by (rule le)
  show "\<forall>t\<in>set sharks. length t = nat (choose_replicas opts)"
    using ok by (simp add: tuple_ok_def)
next
  assume n: "set_js sharkMap dcs offs replicas st = Some (Inr None, st')"
  then show "choose_loop sharkMap dcs offs replicas multi sz stats0 (Suc k) [] st =
        Some (Callback_err
                (NotEnoughSpaceError sz
                   ''copies requested exceeds number of available storage nodes'') stats0, st')"
    by simp
  assume "sharks0 \<noteq> []"
  with n show "choose_loop sharkMap dcs offs replicas multi sz stats0 (Suc k) sharks0 st =
         choose_loop sharkMap dcs offs replicas multi sz stats0 k sharks0 st'"
    by simp
qed

theorem choose_result_shape_witness:
  "choose_js scenario_client (request (Some 2) (Some 5242880)) [] =
     Some (Callback_ok [scenario_tuple] scenario_stats, scenario_client\<lparr>dcIndex := 1\<rparr>) \<and>
   length [scenario_tuple] = 1 \<and> length scenario_tuple = 2 \<and>
   set_js (dcSharkMap scenario_client) [''dc2'', ''dc1''] [0, 0] 2 (used_state 1) =
     Some (Inr None, used_state 0) \<and>
   choose_loop (dcSharkMap scenario_client) [''dc2'', ''dc1''] [0, 0] 2 True (Some 5)
       scenario_stats 2 [scenario_tuple] (used_state 1) =
     Some (Callback_ok [scenario_tuple] scenario_stats, used_state 1) \<and>
   set_js (dcSharkMap scenario_client) [''dc2'', ''dc1''] [0, 0] 3 fresh_state =
     Some (Inr None, used_state 0) \<and>
   choose_js scenario_client (request (Some 3) (Some 5242880)) [] =
     Some (Callback_err
             (NotEnoughSpaceError (Some 5)
                ''copies requested exceeds number of available storage nodes'') scenario_stats,
           scenario_client\<lparr>dcIndex := 0\<rparr>)"
proof -
  have e1: "choose_js scenario_client (request (Some 2) (Some 5242880)) [] =
     Some (Callback_ok [scenario_tuple] scenario_stats, scenario_client\<lparr>dcIndex := 1\<rparr>)"
    by code_simp
  have e2: "set_js (dcSharkMap scenario_client) [''dc2'', ''dc1''] [0, 0] 2 (used_state 1) =
     Some (Inr None, used_state 0)"
    by code_simp
  have e3: "choose_loop (dcSharkMap scenario_client) [''dc2'', ''dc1''] [0, 0] 2 True (Some 5)
       scenario_stats 1 [scenario_tuple] (used_state 0) =
     Some (Callback_ok [scenario_tuple] scenario_stats, used_state 1)"
    by code_simp
  have e4: "set_js (dcSharkMap scenario_client) [''dc2'', ''dc1''] [0, 0] 3 fresh_state =
     Some (Inr None, used_state 0)"
    by code_simp
  have e5: "choose_js scenario_client (request (Some 3) (Some 5242880)) [] =
     Some (Callback_err
             (NotEnoughSpaceError (Some 5)
                ''copies requested exceeds number of available storage nodes'') scenario_stats,
           scenario_client\<lparr>dcIndex := 0\<rparr>)"
    by code_simp
  have l: "length [scenario_tuple] = 1" "length scenario_tuple = 2"
    by (simp_all add: scenario_tuple_def)
  have "choose_loop (dcSharkMap scenario_client) [''dc2'', ''dc1''] [0, 0] 2 True (Some 5)
       scenario_stats (Suc 1) [scenario_tuple] (used_state 1) =
     choose_loop (dcSharkMap scenario_client) [''dc2'', ''dc1''] [0, 0] 2 True (Some 5)
       scenario_stats 1 [scenario_tuple] (used_state 0)"
    using choose_result_shape[of scenario_client "request (Some 2) (Some 5242880)" "[]"
        "[scenario_tuple]" scenario_stats "scenario_client\<lparr>dcIndex := 1\<rparr>"
        "dcSharkMap scenario_client" "[''dc2'', ''dc1'']" "[0, 0]" 2 "used_state 1" "used_state 0"
        True "Some 5" scenario_stats 1 "[scenario_tuple]"] e2
    by simp
  then have "choose_loop (dcSharkMap scenario_client) [''dc2'', ''dc1''] [0, 0] 2 True (Some 5)
       scenario_stats 2 [scenario_tuple] (used_state 1) =
     Some (Callback_ok [scenario_tuple] scenario_stats, used_state 1)"
    using e3 by (simp add: numeral_2_eq_2)
  then show ?thesis using e1 e2 e4 e5 l by simp
qed

text \<open>
  Claim C2. With \<open>multiDC\<close> and more than one replica, every replica set that
  \<open>choose\<close> returns has hosts in at least two datacenters; and in any round of the
  loop, a set that \<open>set()\<close> has built with hosts in fewer than two datacenters ends the
  call with the NotEnoughSpaceError "insufficient number of DCs selected".
\<close>

theorem spread_over_two_datacenters:
  "(choose_js c opts rs = Some (Callback_ok sharks stats, c') \<and> multiDC c \<and>
      1 < choose_replicas opts \<longrightarrow>
      (\<forall>t\<in>set sharks. 2 \<le> card (hr_datacenter ` set t))) \<and>
   (multi \<and> 1 < replicas \<and>
      set_js sharkMap dcs offs replicas st = Some (Inr (Some t), st') \<and>
      card (hr_datacenter ` set t) < 2 \<longrightarrow>
      choose_loop sharkMap dcs offs replicas multi sz stats0 (Suc k) sharks0 st =
        Some (Callback_err (NotEnoughSpaceError sz ''insufficient number of DCs selected'')
                stats0, st'))"
proof (intro conjI impI)
  assume a: "choose_js c opts rs = Some (Callback_ok sharks stats, c') \<and> multiDC c \<and>
      1 < choose_replicas opts"
  then have "\<forall>t\<in>set sharks. tuple_ok (request_map c opts) (dcsInUse stats) (offsets stats)
                          (choose_replicas opts) (multiDC c) t"
    using choose_js_ok_sets(3)[of c opts rs sharks stats c'] by blast
  then show "\<forall>t\<in>set sharks. 2 \<le> card (hr_datacenter ` set t)"
    using a by (simp add: tuple_ok_def reduceFun_card)
next
  assume a: "multi \<and> 1 < replicas \<and>
      set_js sharkMap dcs offs replicas st = Some (Inr (Some t), st') \<and>
      card (hr_datacenter ` set t) < 2"
  then have "length t = nat replicas" using set_js_tuple_length by blast
  then have "\<not> int (length t) < replicas" by simp
  then show "choose_loop sharkMap dcs offs replicas multi sz stats0 (Suc k) sharks0 st =
        Some (Callback_err (NotEnoughSpaceError sz ''insufficient number of DCs selected'')
                stats0, st')"
    using a by (simp add: reduceFun_card)
qed

theorem spread_over_two_datacenters_witness:
  "choose_js scenario_client (request (Some 2) (Some 5242880)) [] =
     Some (Callback_ok [scenario_tuple] scenario_stats, scenario_client\<lparr>dcIndex := 1\<rparr>) \<and>
   multiDC scenario_client \<and> 1 < choose_replicas (request (Some 2) (Some 5242880)) \<and>
   card (hr_datacenter ` set scenario_tuple) = 2 \<and>
   set_js (dcSharkMap mislabelled_client) [''dc2'', ''dc1''] [0, 0] 2 fresh_state =
     Some (Inr (Some mislabelled_tuple), used_state 1) \<and>
   card (hr_datacenter ` set mislabelled_tuple) = 1 \<and>
   choose_loop (dcSharkMap mislabelled_client) [''dc2'', ''dc1''] [0, 0] 2 True (Some 5)
       scenario_stats 3 [] fresh_state =
     Some (Callback_err (NotEnoughSpaceError (Some 5) ''insufficient number of DCs selected'')
             scenario_stats, used_state 1) \<and>
   choose_js mislabelled_client (request (Some 2) (Some 5242880)) [] =
     Some (Callback_err (NotEnoughSpaceError (Some 5) ''insufficient number of DCs selected'')
             scenario_stats, mislabelled_client\<lparr>dcIndex := 1\<rparr>)"
proof -
  have e1: "choose_js scenario_client (request (Some 2) (Some 5242880)) [] =
     Some (Callback_ok [scenario_tuple] scenario_stats, scenario_client\<lparr>dcIndex := 1\<rparr>)"
    by code_simp
  have m: "multiDC scenario_client" "1 < choose_replicas (request (Some 2) (Some 5242880))"
    by code_simp+
  have c1: "card (hr_datacenter ` set scenario_tuple) = 2"
    by (simp add: scenario_tuple_def)
  have e2: "set_js (dcSharkMap mislabelled_client) [''dc2'', ''dc1''] [0, 0] 2 fresh_state =
     Some (Inr (Some mislabelled_tuple), used_state 1)"
    by code_simp
  have c2: "card (hr_datacenter ` set mislabelled_tuple) = 1"
    by (simp add: mislabelled_tuple_def)
  have e3: "choose_js mislabelled_client (request (Some 2) (Some 5242880)) [] =
     Some (Callback_err (NotEnoughSpaceError (Some 5) ''insufficient number of DCs selected'')
             scenario_stats, mislabelled_client\<lparr>dcIndex := 1\<rparr>)"
    by code_simp
  have "choose_loop (dcSharkMap mislabelled_client) [''dc2'', ''dc1''] [0, 0] 2 True (Some 5)
       scenario_stats (Suc 2) [] fresh_state =
     Some (Callback_err (NotEnoughSpaceError (Some 5) ''insufficient number of DCs selected'')
             scenario_stats, used_state 1)"
    using spread_over_two_datacenters[of scenario_client "request (Some 2) (Some 5242880)" "[]"
        "[scenario_tuple]" scenario_stats "scenario_client\<lparr>dcIndex := 1\<rparr>" True 2
        "dcSharkMap mislabelled_client" "[''dc2'', ''dc1'']" "[0, 0]" fresh_state mislabelled_tuple
        "used_state 1" "Some 5" scenario_stats 2 "[]"] e2 c2
    by simp
  then have "choose_loop (dcSharkMap mislabelled_client) [''dc2'', ''dc1''] [0, 0] 2 True (Some 5)
       scenario_stats 3 [] fresh_state =
     Some (Callback_err (NotEnoughSpaceError (Some 5) ''insufficient number of DCs selected'')
             scenario_stats, used_state 1)"
    by (simp add: numeral_3_eq_3)
  then show ?thesis using e1 m c1 e2 c2 e3 by simp
qed

section \<open>The check for enough datacenters\<close>

lemma installed_by_sortAndStoreDcs:
  "\<exists>m. installed (sortAndStoreDcs c dcObj opDcObj) opts m"
  by (auto simp: installed_def request_map_def request_names_def sortAndStoreDcs_def Let_def
        list_all_iff sort_js_sorted comp_def case_prod_unfold)

lemma installed_sorted:
  assumes "installed c opts m" and "map_of m name = Some xs"
  shows "sorted (map availableMB xs)"
proof -
  have "(name, xs) \<in> set m" using assms(2) by (rule map_of_SomeD)
  then show ?thesis using assms(1) by (auto simp: installed_def list_all_iff)
qed

lemma installed_sorted_map:
  assumes "installed c opts m"
  shows "sorted_map m (map fst m)"
  unfolding sorted_map_def list_all_iff
proof
  fix name assume "name \<in> set (map fst m)"
  then obtain xs where xs: "map_of m name = Some xs"
    by (metis map_of_eq_None_iff not_None_eq set_map)
  then show "case map_of m name of None \<Rightarrow> False | Some xs \<Rightarrow> sorted (map availableMB xs)"
    using installed_sorted[OF assms xs] by simp
qed

text \<open>
  The cause that counts the datacenters starts with a digit or a sign, so it is none of
  the fixed causes.
\<close>

lemma show_nat_head: "show_nat n \<noteq> [] \<and> hd (show_nat n) \<in> set ''0123456789''"
proof (induction n rule: show_nat.induct)
  case (1 n)
  show ?case
  proof (cases "n < 10")
    case True
    then have "n \<in> {0, 1, 2, 3, 4, 5, 6, 7, 8, 9}" by auto
    then show ?thesis using True by (subst (1 2) show_nat.simps) auto
  next
    case False
    then show ?thesis using 1 by (subst (1 2) show_nat.simps) (simp add: hd_append)
  qed
qed

lemma show_int_head: "show_int i \<noteq> [] \<and> hd (show_int i) \<in> set ''-0123456789''"
  using show_nat_head[of "nat i"] by (auto simp: show_int_def)

lemma check_causes_differ:
  "show_int r @ '' copies requested, but only '' @ show_nat n @ '' DC(s) have sufficient space''
     \<noteq> ''copies requested exceeds number of available storage nodes'' \<and>
   show_int r @ '' copies requested, but only '' @ show_nat n @ '' DC(s) have sufficient space''
     \<noteq> ''insufficient number of DCs selected'' \<and>
   show_int r @ '' copies requested, but only '' @ show_nat n @ '' DC(s) have sufficient space''
     \<noteq> ''no DC with sufficient space''"
proof -
  obtain c cs where c: "show_int r = c # cs" "c \<in> set ''-0123456789''"
    using show_int_head[of r] by (cases "show_int r") auto
  then show ?thesis by auto
qed

text \<open>
  On an installed topology and with a size, the filter keeps the qualifying datacenters
  with their lower bounds, and the call is the check followed by the loop.
\<close>

lemma choose_js_installed:
  assumes "installed c opts m" and "choose_size c opts = Some sz"
    and "cands = filter (qualifies m sz) (map fst m)"
  shows "choose_js c opts rs =
     (case enoughDCs_cause (choose_replicas opts) (multiDC c) (length cands) of
        Some cause \<Rightarrow>
          Some (Callback_err (NotEnoughSpaceError (Some sz) cause)
                  \<lparr>dcsInUse = cands, offsets = map (offset_of m sz) cands\<rparr>, c)
      | None \<Rightarrow>
         (case choose_loop (Some m) (fst (shuffle cands rs)) (map (offset_of m sz) cands)
                 (choose_replicas opts) (multiDC c) (Some sz)
                 \<lparr>dcsInUse = fst (shuffle cands rs), offsets = map (offset_of m sz) cands\<rparr> 3 []
                 \<lparr>bs_dcIndex = dcIndex c, bs_seen = [], bs_rand = snd (shuffle cands rs)\<rparr> of
            None \<Rightarrow> None
          | Some (out, st) \<Rightarrow> Some (out, c\<lparr>dcIndex := bs_dcIndex st\<rparr>)))"
proof -
  have f: "forEach_filterDatacenters (Some m) (Some sz) (map fst m) ([], []) =
             Inr (cands, map (offset_of m sz) cands)"
    using forEach_filterDatacenters_result[OF installed_sorted_map[OF assms(1)], of sz "([], [])"]
      assms(3) by simp
  show ?thesis
    using assms(1,2) f by (simp add: choose_js_alt installed_def split: option.splits)
qed

text \<open>
  Claim C5, with the reasons as the code words them. On an installed topology and for a
  request with a size, \<open>choose\<close> ends in the check before any set is built (the error
  carries the unshuffled candidates, and the client is unchanged) exactly when no
  datacenter has a qualifying shark, or more than one replica is asked for, \<open>multiDC\<close>
  is set and fewer than two datacenters qualify. The reason is
  "no DC with sufficient space" in the first case and
  "N copies requested, but only M DC(s) have sufficient space" in the second.
\<close>

theorem enough_datacenters_check:
  assumes "installed c opts m" and "choose_size c opts = Some sz"
    and "cands = filter (qualifies m sz) (map fst m)"
  shows "((\<exists>cause. choose_js c opts rs =
              Some (Callback_err (NotEnoughSpaceError (Some sz) cause)
                      \<lparr>dcsInUse = cands, offsets = map (offset_of m sz) cands\<rparr>, c) \<and>
            (cause = ''no DC with sufficient space'' \<or>
             cause = show_int (choose_replicas opts) @ '' copies requested, but only '' @
                     show_nat (length cands) @ '' DC(s) have sufficient space''))
          \<longleftrightarrow> (cands = [] \<or> (1 < choose_replicas opts \<and> multiDC c \<and> length cands < 2))) \<and>
         (cands = [] \<longrightarrow>
            choose_js c opts rs =
              Some (Callback_err (NotEnoughSpaceError (Some sz) ''no DC with sufficient space'')
                      \<lparr>dcsInUse = [], offsets = []\<rparr>, c)) \<and>
         (cands \<noteq> [] \<and> 1 < choose_replicas opts \<and> multiDC c \<and> length cands < 2 \<longrightarrow>
            choose_js c opts rs =
              Some (Callback_err
                      (NotEnoughSpaceError (Some sz)
                         (show_int (choose_replicas opts) @ '' copies requested, but only '' @
                          show_nat (length cands) @ '' DC(s) have sufficient space''))
                      \<lparr>dcsInUse = cands, offsets = map (offset_of m sz) cands\<rparr>, c))"
proof -
  note eq = choose_js_installed[OF assms, of rs]
  let ?few = "show_int (choose_replicas opts) @ '' copies requested, but only '' @
              show_nat (length cands) @ '' DC(s) have sufficient space''"
  let ?stats = "\<lparr>dcsInUse = cands, offsets = map (offset_of m sz) cands\<rparr>"
  have a: "cands = [] \<Longrightarrow> choose_js c opts rs =
      Some (Callback_err (NotEnoughSpaceError (Some sz) ''no DC with sufficient space'')
              \<lparr>dcsInUse = [], offsets = []\<rparr>, c)"
    using eq by (simp add: enoughDCs_cause_def)
  have b: "cands \<noteq> [] \<and> 1 < choose_replicas opts \<and> multiDC c \<and> length cands < 2 \<Longrightarrow>
      choose_js c opts rs = Some (Callback_err (NotEnoughSpaceError (Some sz) ?few) ?stats, c)"
    using eq by (simp add: enoughDCs_cause_def)
  have c: "\<not> (cands = [] \<or> (1 < choose_replicas opts \<and> multiDC c \<and> length cands < 2)) \<Longrightarrow>
      choose_js c opts rs = Some (Callback_err (NotEnoughSpaceError (Some sz) cause) stats, c')
      \<Longrightarrow> cause = ''copies requested exceeds number of available storage nodes'' \<or>
          cause = ''insufficient number of DCs selected''" for cause stats c'
  proof -
    assume n: "\<not> (cands = [] \<or> (1 < choose_replicas opts \<and> multiDC c \<and> length cands < 2))"
      and r: "choose_js c opts rs = Some (Callback_err (NotEnoughSpaceError (Some sz) cause) stats, c')"
    have none: "enoughDCs_cause (choose_replicas opts) (multiDC c) (length cands) = None"
      using n by (auto simp: enoughDCs_cause_def)
    obtain out st where l:
        "choose_loop (Some m) (fst (shuffle cands rs)) (map (offset_of m sz) cands)
           (choose_replicas opts) (multiDC c) (Some sz)
           \<lparr>dcsInUse = fst (shuffle cands rs), offsets = map (offset_of m sz) cands\<rparr> 3 []
           \<lparr>bs_dcIndex = dcIndex c, bs_seen = [], bs_rand = snd (shuffle cands rs)\<rparr> =
         Some (out, st)"
        "loop_post (Some m) (fst (shuffle cands rs)) (map (offset_of m sz) cands)
           (choose_replicas opts) (multiDC c) (Some sz)
           \<lparr>dcsInUse = fst (shuffle cands rs), offsets = map (offset_of m sz) cands\<rparr> 3 []
           \<lparr>bs_dcIndex = dcIndex c, bs_seen = [], bs_rand = snd (shuffle cands rs)\<rparr> out st"
      using choose_loop_returns by blast
    from eq none l(1) r have "out = Callback_err (NotEnoughSpaceError (Some sz) cause) stats"
      by simp
    with l(2) show ?thesis by (auto simp: loop_post_def)
  qed
  have iff: "(\<exists>cause. choose_js c opts rs =
              Some (Callback_err (NotEnoughSpaceError (Some sz) cause) ?stats, c) \<and>
            (cause = ''no DC with sufficient space'' \<or> cause = ?few))
          \<longleftrightarrow> (cands = [] \<or> (1 < choose_replicas opts \<and> multiDC c \<and> length cands < 2))"
  proof
    assume "\<exists>cause. choose_js c opts rs =
              Some (Callback_err (NotEnoughSpaceError (Some sz) cause) ?stats, c) \<and>
            (cause = ''no DC with sufficient space'' \<or> cause = ?few)"
    then obtain cause where r: "choose_js c opts rs =
              Some (Callback_err (NotEnoughSpaceError (Some sz) cause) ?stats, c)"
        and k: "cause = ''no DC with sufficient space'' \<or> cause = ?few" by blast
    show "cands = [] \<or> (1 < choose_replicas opts \<and> multiDC c \<and> length cands < 2)"
    proof (rule ccontr)
      assume n: "\<not> (cands = [] \<or> (1 < choose_replicas opts \<and> multiDC c \<and> length cands < 2))"
      from c[OF n r] k check_causes_differ[of "choose_replicas opts" "length cands"]
      show False by auto
    qed
  next
    assume "cands = [] \<or> (1 < choose_replicas opts \<and> multiDC c \<and> length cands < 2)"
    then consider (z) "cands = []"
      | (f) "cands \<noteq> [] \<and> 1 < choose_replicas opts \<and> multiDC c \<and> length cands < 2" by blast
    then show "\<exists>cause. choose_js c opts rs =
              Some (Callback_err (NotEnoughSpaceError (Some sz) cause) ?stats, c) \<and>
            (cause = ''no DC with sufficient space'' \<or> cause = ?few)"
    proof cases
      case z
      then show ?thesis using a by auto
    next
      case f
      then show ?thesis using b by blast
    qed
  qed
  show ?thesis using iff a b by blast
qed

theorem enough_datacenters_check_witness:
  "installed single_dc_client (request None (Some 5242880))
     [(''dc1'', [\<lparr>manta_storage_id = ''a'', datacenter = ''dc1'', availableMB = 10\<rparr>])] \<and>
   choose_size single_dc_client (request None (Some 5242880)) = Some 5 \<and>
   choose_js single_dc_client (request None (Some 5242880)) [] =
     Some (Callback_err
             (NotEnoughSpaceError (Some 5)
                ''2 copies requested, but only 1 DC(s) have sufficient space'')
             \<lparr>dcsInUse = [''dc1''], offsets = [0]\<rparr>, single_dc_client) \<and>
   choose_js single_dc_client (request None (Some 52428800)) [] =
     Some (Callback_err (NotEnoughSpaceError (Some 50) ''no DC with sufficient space'')
             \<lparr>dcsInUse = [], offsets = []\<rparr>, single_dc_client)"
proof -
  let ?m = "[(''dc1'', [\<lparr>manta_storage_id = ''a'', datacenter = ''dc1'', availableMB = 10\<rparr>])]"
  have i: "installed single_dc_client (request None (Some 5242880)) ?m"
    by (simp add: installed_def request_map_def request_names_def single_dc_client_def
        sortAndStoreDcs_def request_def sort_js_def)
  have sz: "choose_size single_dc_client (request None (Some 5242880)) = Some 5"
    by code_simp
  have cands: "[''dc1''] = filter (qualifies ?m 5) (map fst ?m)"
    by (simp add: qualifies_def)
  have r: "choose_replicas (request None (Some 5242880)) = 2" by code_simp
  have m: "multiDC single_dc_client" by code_simp
  have few: "show_int 2 @ '' copies requested, but only '' @ show_nat (length [''dc1'']) @
        '' DC(s) have sufficient space'' =
      ''2 copies requested, but only 1 DC(s) have sufficient space''"
    by code_simp
  have off: "map (offset_of ?m 5) [''dc1''] = [0]" by code_simp
  have e2: "choose_js single_dc_client (request None (Some 52428800)) [] =
     Some (Callback_err (NotEnoughSpaceError (Some 50) ''no DC with sufficient space'')
             \<lparr>dcsInUse = [], offsets = []\<rparr>, single_dc_client)"
    by code_simp
  have "choose_js single_dc_client (request None (Some 5242880)) [] =
     Some (Callback_err
             (NotEnoughSpaceError (Some 5)
                ''2 copies requested, but only 1 DC(s) have sufficient space'')
             \<lparr>dcsInUse = [''dc1''], offsets = [0]\<rparr>, single_dc_client)"
    using enough_datacenters_check[OF i sz cands, of "[]"] r m few off by simp
  then show ?thesis using i sz e2 by simp
qed

text \<open>
  The claim as the specification states it fails on the wording of the reason: with no
  qualifying datacenter the error carries "no DC with sufficient space".
\<close>

theorem no_datacenter_cause_text:
  "choose_js single_dc_client (request None (Some 52428800)) [] =
     Some (Callback_err (NotEnoughSpaceError (Some 50) ''no DC with sufficient space'')
             \<lparr>dcsInUse = [], offsets = []\<rparr>, single_dc_client) \<and>
   ''no DC with sufficient space'' \<noteq> ''no datacenter with sufficient space''"
proof -
  have "choose_js single_dc_client (request None (Some 52428800)) [] =
     Some (Callback_err (NotEnoughSpaceError (Some 50) ''no DC with sufficient space'')
             \<lparr>dcsInUse = [], offsets = []\<rparr>, single_dc_client)"
    by code_simp
  then show ?thesis by simp
qed

section \<open>Capacity of the chosen sharks\<close>

text \<open>
  With one candidate datacenter and one replica nothing can go wrong: the shuffle leaves
  the one name in place, every call of \<open>host()\<close> reads the one datacenter at its own
  offset, and the first call finds an unseen shark.
\<close>

lemma shuffle_single: "fst (shuffle [d] rs) = [d]"
  by (cases rs) (simp_all add: shuffle_def floor_random_def)

lemma host_single:
  assumes "- 1 \<le> bs_dcIndex st" and "map_of m d = Some dc"
    and "0 \<le> off" and "off < int (length dc)"
  shows "\<exists>out st'. host (Some m) [d] [off] st = Some (Inr out, st') \<and> bs_dcIndex st' = 0 \<and>
           (bs_seen st = [] \<longrightarrow> out \<noteq> None)"
proof -
  have ndx: "(if bs_dcIndex st + 1 \<ge> int (length [d]) then 0 else bs_dcIndex st + 1) = 0"
    using assms(1) by auto
  obtain r rs' where d: "draw (bs_rand st) = (r, rs')" by (cases "draw (bs_rand st)")
  obtain res where res: "host_pick dc (bs_seen st) off r = Some res"
      "scan_post dc (bs_seen st) off res"
    using host_pick_post[of dc "bs_seen st" off r] assms(3,4) by blast
  from res(2) obtain o1 where o1: "res = Inr o1" by (cases res) (auto simp: scan_post_def)
  show ?thesis
  proof (cases o1)
    case None
    have "bs_seen st \<noteq> []"
    proof
      assume "bs_seen st = []"
      with res(2) o1 None assms(3,4) show False by (auto simp: scan_post_def)
    qed
    then show ?thesis using ndx d res(1) o1 None assms(2)
      by (simp add: host_def Let_def nth_js_def)
  next
    case (Some s)
    obtain sh where sh: "nth_js dc s = Some sh"
      using host_pick_result[of dc "bs_seen st" off r s] res(1) o1 Some by auto
    then show ?thesis using ndx d res(1) o1 Some assms(2)
      by (simp add: host_def Let_def nth_js_def)
  qed
qed

lemma set_loop_single:
  assumes "map_of m d = Some dc" and "0 \<le> off" and "off < int (length dc)"
  shows "- 1 \<le> bs_dcIndex st \<Longrightarrow>
         \<exists>out st'. set_loop (Some m) [d] [off] n acc st = Some (Inr out, st') \<and>
           - 1 \<le> bs_dcIndex st' \<and> (bs_seen st = [] \<and> n \<le> 1 \<longrightarrow> out \<noteq> None)"
proof (induction n arbitrary: acc st)
  case 0
  then show ?case by simp
next
  case (Suc n)
  obtain out1 st1 where h: "host (Some m) [d] [off] st = Some (Inr out1, st1)"
      "bs_dcIndex st1 = 0" "bs_seen st = [] \<longrightarrow> out1 \<noteq> None"
    using host_single[OF Suc.prems assms] by blast
  show ?case
  proof (cases out1)
    case None
    then show ?thesis using h by auto
  next
    case (Some hr)
    obtain out2 st2 where r: "set_loop (Some m) [d] [off] n (acc @ [hr]) st1 = Some (Inr out2, st2)"
        "- 1 \<le> bs_dcIndex st2" "bs_seen st1 = [] \<and> n \<le> 1 \<longrightarrow> out2 \<noteq> None"
      using Suc.IH[of st1 "acc @ [hr]"] h(2) by auto
    have "n = 0 \<longrightarrow> out2 \<noteq> None" using r(1) by auto
    then show ?thesis using h(1) Some r by auto
  qed
qed

lemma choose_loop_single:
  assumes "map_of m d = Some dc" and "0 \<le> off" and "off < int (length dc)"
  shows "- 1 \<le> bs_dcIndex st \<Longrightarrow> sharks \<noteq> [] \<or> bs_seen st = [] \<Longrightarrow>
         \<exists>sharks' st'. choose_loop (Some m) [d] [off] 1 multi sz stats k sharks st =
                         Some (Callback_ok sharks' stats, st')"
proof (induction k arbitrary: sharks st)
  case 0
  then show ?case by simp
next
  case (Suc k)
  obtain out1 st1 where s: "set_loop (Some m) [d] [off] 1 [] st = Some (Inr out1, st1)"
      "- 1 \<le> bs_dcIndex st1" "bs_seen st = [] \<and> (1::nat) \<le> 1 \<longrightarrow> out1 \<noteq> None"
    using set_loop_single[OF assms Suc.prems(1), of 1 "[]"] by blast
  then have sj: "set_js (Some m) [d] [off] 1 st = Some (Inr out1, st1)"
    by (simp add: set_js_def)
  show ?case
  proof (cases out1)
    case None
    then have ne: "sharks \<noteq> []" using s(3) Suc.prems(2) by auto
    obtain sharks' st' where "choose_loop (Some m) [d] [off] 1 multi sz stats k sharks st1 =
                         Some (Callback_ok sharks' stats, st')"
      using Suc.IH[OF s(2), of sharks] ne by blast
    then show ?thesis using sj None ne by simp
  next
    case (Some t)
    have len: "length t = nat 1" using set_js_tuple_length[of "Some m" "[d]" "[off]" 1 st t st1] sj Some
      by simp
    obtain sharks' st' where "choose_loop (Some m) [d] [off] 1 multi sz stats k (sharks @ [t]) st1 =
                         Some (Callback_ok sharks' stats, st')"
      using Suc.IH[OF s(2), of "sharks @ [t]"] by blast
    then show ?thesis using sj Some len by simp
  qed
qed

text \<open>
  A host picked at a position whose offset is the lower bound of the datacenter at that
  position has enough space.
\<close>

lemma choose_js_installed_stats:
  assumes "installed c opts m" and "choose_size c opts = Some sz"
    and "cands = filter (qualifies m sz) (map fst m)"
    and "choose_js c opts rs = Some (Callback_ok sharks stats, c')"
  shows "stats = \<lparr>dcsInUse = fst (shuffle cands rs), offsets = map (offset_of m sz) cands\<rparr>"
proof -
  note eq = choose_js_installed[OF assms(1,2,3), of rs]
  obtain out st where l:
      "choose_loop (Some m) (fst (shuffle cands rs)) (map (offset_of m sz) cands)
         (choose_replicas opts) (multiDC c) (Some sz)
         \<lparr>dcsInUse = fst (shuffle cands rs), offsets = map (offset_of m sz) cands\<rparr> 3 []
         \<lparr>bs_dcIndex = dcIndex c, bs_seen = [], bs_rand = snd (shuffle cands rs)\<rparr> =
       Some (out, st)"
      "loop_post (Some m) (fst (shuffle cands rs)) (map (offset_of m sz) cands)
         (choose_replicas opts) (multiDC c) (Some sz)
         \<lparr>dcsInUse = fst (shuffle cands rs), offsets = map (offset_of m sz) cands\<rparr> 3 []
         \<lparr>bs_dcIndex = dcIndex c, bs_seen = [], bs_rand = snd (shuffle cands rs)\<rparr> out st"
    using choose_loop_returns by blast
  from eq assms(4) l(1) have "out = Callback_ok sharks stats"
    by (auto split: option.splits)
  with l(2) show ?thesis by (simp add: loop_post_def)
qed

lemma picked_has_capacity:
  assumes inst: "installed c opts m"
    and p: "picked_from m dcs offs h"
    and al: "offs = map (offset_of m sz) dcs"
    and q: "\<forall>off\<in>set offs. off \<noteq> - 1"
  shows "\<exists>name xs sh. map_of m name = Some xs \<and> sh \<in> set xs \<and>
           datacenter sh = hr_datacenter h \<and> manta_storage_id sh = hr_manta_storage_id h \<and>
           sz \<le> availableMB sh"
proof -
  from p obtain ndx name dc off s sh where
      n: "nth_js dcs ndx = Some name" and d: "map_of m name = Some dc"
      and o: "nth_js offs ndx = Some off" and sh: "nth_js dc s = Some sh"
      and le: "0 \<le> off \<and> off < int (length dc) \<longrightarrow> off \<le> s"
      and h: "h = \<lparr>hr_datacenter = datacenter sh, hr_manta_storage_id = manta_storage_id sh\<rparr>"
    unfolding picked_from_def by blast
  from n have ndx: "0 \<le> ndx" "ndx < int (length dcs)" "name = dcs ! nat ndx"
    by (auto simp: nth_js_def split: if_splits)
  from o al ndx have off: "off = offset_of m sz name"
    by (auto simp: nth_js_def split: if_splits)
  from o have "off \<in> set offs" by (auto simp: nth_js_def split: if_splits)
  with q have ne: "off \<noteq> - 1" by blast
  obtain r where r: "offset_of m sz name = r" "(r \<noteq> - 1) = qualifies m sz name"
      "qualifies m sz name \<longrightarrow> 0 \<le> r \<and> r < int (length dc) \<and>
         (\<forall>j. nat r \<le> j \<and> j < length dc \<longrightarrow> sz \<le> availableMB (dc ! j))"
    using lower_bound_qualifies[OF d installed_sorted[OF inst d], of sz] by blast
  with off ne have b: "0 \<le> off" "off < int (length dc)"
      "\<forall>j. nat off \<le> j \<and> j < length dc \<longrightarrow> sz \<le> availableMB (dc ! j)" by auto
  from sh have s: "0 \<le> s" "s < int (length dc)" "sh = dc ! nat s"
    by (auto simp: nth_js_def split: if_splits)
  from le b have "off \<le> s" by simp
  then have "nat off \<le> nat s \<and> nat s < length dc" using s b by auto
  with b(3) have "sz \<le> availableMB (dc ! nat s)" by blast
  moreover have "sh \<in> set dc" using s by simp
  ultimately show ?thesis using d h s(3) by auto
qed

text \<open>
  What the code does guarantee. On an installed topology, for a request with a size, when
  some datacenter has a shark with \<open>availableMB \<ge> size\<close>: \<open>choose\<close> does not end with
  "no DC with sufficient space" (it may still end with one of the other three causes).
  When exactly one datacenter qualifies and one replica is asked for, the call succeeds.
  A successful call returns at least one replica set. And in a run where the offsets
  handed to the callback are the lower bounds of the datacenters at the same positions of
  \<open>dcsInUse\<close>, every member of every returned set is a shark of the topology with
  \<open>availableMB \<ge> size\<close>. With one candidate datacenter the offsets always line up; with
  several they do only when the shuffle leaves the names where the filter put them, or the
  lower bounds happen to agree.
\<close>

lemma choose_capacity_with_aligned_offsets:
  assumes "installed c opts m" and "choose_size c opts = Some sz"
    and "cands = filter (qualifies m sz) (map fst m)"
  shows "((\<exists>name\<in>set (map fst m). qualifies m sz name) \<longrightarrow>
            (\<forall>stats0 c0. choose_js c opts rs \<noteq>
               Some (Callback_err (NotEnoughSpaceError (Some sz) ''no DC with sufficient space'')
                       stats0, c0))) \<and>
         (length cands = 1 \<and> choose_replicas opts = 1 \<and> - 1 \<le> dcIndex c \<longrightarrow>
            (\<exists>sharks0 stats0 c0. choose_js c opts rs = Some (Callback_ok sharks0 stats0, c0))) \<and>
         (choose_js c opts rs = Some (Callback_ok sharks stats, c') \<longrightarrow>
            1 \<le> length sharks \<and>
            (length cands = 1 \<longrightarrow> offsets stats = map (offset_of m sz) (dcsInUse stats)) \<and>
            (offsets stats = map (offset_of m sz) (dcsInUse stats) \<longrightarrow>
               (\<forall>t\<in>set sharks. \<forall>h\<in>set t.
                  \<exists>name xs sh. map_of m name = Some xs \<and> sh \<in> set xs \<and>
                    datacenter sh = hr_datacenter h \<and>
                    manta_storage_id sh = hr_manta_storage_id h \<and>
                    sz \<le> availableMB sh)))"
proof (intro conjI impI allI ballI)
  fix stats0 c0
  assume q: "\<exists>name\<in>set (map fst m). qualifies m sz name"
  have ne: "cands \<noteq> []" using q by (auto simp: assms(3) filter_empty_conv)
  show "choose_js c opts rs \<noteq>
          Some (Callback_err (NotEnoughSpaceError (Some sz) ''no DC with sufficient space'')
                  stats0, c0)"
  proof
    assume r: "choose_js c opts rs =
          Some (Callback_err (NotEnoughSpaceError (Some sz) ''no DC with sufficient space'')
                  stats0, c0)"
    note eq = choose_js_installed[OF assms, of rs]
    show False
    proof (cases "enoughDCs_cause (choose_replicas opts) (multiDC c) (length cands)")
      case (Some cause)
      then have "cause = show_int (choose_replicas opts) @ '' copies requested, but only '' @
                     show_nat (length cands) @ '' DC(s) have sufficient space''"
        using ne by (auto simp: enoughDCs_cause_def split: if_splits)
      moreover have "cause = ''no DC with sufficient space''" using eq r Some by simp
      ultimately show False
        using check_causes_differ[of "choose_replicas opts" "length cands"] by simp
    next
      case None
      obtain out st where l:
          "choose_loop (Some m) (fst (shuffle cands rs)) (map (offset_of m sz) cands)
             (choose_replicas opts) (multiDC c) (Some sz)
             \<lparr>dcsInUse = fst (shuffle cands rs), offsets = map (offset_of m sz) cands\<rparr> 3 []
             \<lparr>bs_dcIndex = dcIndex c, bs_seen = [], bs_rand = snd (shuffle cands rs)\<rparr> =
           Some (out, st)"
          "loop_post (Some m) (fst (shuffle cands rs)) (map (offset_of m sz) cands)
             (choose_replicas opts) (multiDC c) (Some sz)
             \<lparr>dcsInUse = fst (shuffle cands rs), offsets = map (offset_of m sz) cands\<rparr> 3 []
             \<lparr>bs_dcIndex = dcIndex c, bs_seen = [], bs_rand = snd (shuffle cands rs)\<rparr> out st"
        using choose_loop_returns by blast
      from eq None l(1) r
      have "out = Callback_err (NotEnoughSpaceError (Some sz) ''no DC with sufficient space'') stats0"
        by simp
      with l(2) show False by (simp add: loop_post_def)
    qed
  qed
next
  assume a: "length cands = 1 \<and> choose_replicas opts = 1 \<and> - 1 \<le> dcIndex c"
  then obtain d where d: "cands = [d]" by (cases cands) auto
  then have "d \<in> set (filter (qualifies m sz) (map fst m))" using assms(3) by simp
  then have qd: "qualifies m sz d" by simp
  then obtain dc where dc: "map_of m d = Some dc"
    by (auto simp: qualifies_def split: option.splits)
  have off: "0 \<le> offset_of m sz d" "offset_of m sz d < int (length dc)"
    using lower_bound_qualifies[OF dc installed_sorted[OF assms(1) dc], of sz] qd by auto
  have none: "enoughDCs_cause (choose_replicas opts) (multiDC c) (length cands) = None"
    using a by (simp add: enoughDCs_cause_def)
  obtain sharks' st' where
      "choose_loop (Some m) [d] [offset_of m sz d] 1 (multiDC c) (Some sz)
         \<lparr>dcsInUse = [d], offsets = [offset_of m sz d]\<rparr> 3 []
         \<lparr>bs_dcIndex = dcIndex c, bs_seen = [], bs_rand = snd (shuffle [d] rs)\<rparr> =
       Some (Callback_ok sharks' \<lparr>dcsInUse = [d], offsets = [offset_of m sz d]\<rparr>, st')"
    using choose_loop_single[OF dc off, of "\<lparr>bs_dcIndex = dcIndex c, bs_seen = [],
        bs_rand = snd (shuffle [d] rs)\<rparr>" "[]" "multiDC c" "Some sz"
        "\<lparr>dcsInUse = [d], offsets = [offset_of m sz d]\<rparr>" 3] a
    by auto
  then show "\<exists>sharks0 stats0 c0. choose_js c opts rs = Some (Callback_ok sharks0 stats0, c0)"
    using choose_js_installed[OF assms, of rs] none d a by (simp add: shuffle_single)
next
  assume a: "choose_js c opts rs = Some (Callback_ok sharks stats, c')"
  then have "sharks \<noteq> []" using choose_js_ok_sets(1) by blast
  then show "1 \<le> length sharks" by (cases sharks) simp_all
next
  assume a: "choose_js c opts rs = Some (Callback_ok sharks stats, c')"
    and one: "length cands = 1"
  then obtain d where d: "cands = [d]" by (cases cands) auto
  show "offsets stats = map (offset_of m sz) (dcsInUse stats)"
    using choose_js_installed_stats[OF assms a] d by (simp add: shuffle_single)
next
  fix t h
  assume a: "choose_js c opts rs = Some (Callback_ok sharks stats, c')"
    and al: "offsets stats = map (offset_of m sz) (dcsInUse stats)"
    and t: "t \<in> set sharks" and h: "h \<in> set t"
  have rm: "request_map c opts = Some m" using assms(1) by (simp add: installed_def)
  have "tuple_ok (request_map c opts) (dcsInUse stats) (offsets stats)
          (choose_replicas opts) (multiDC c) t"
    using choose_js_ok_sets(3)[OF a] t by blast
  then have p: "picked_from m (dcsInUse stats) (offsets stats) h"
    using h rm by (auto simp: tuple_ok_def)
  have o: "offsets stats = map (offset_of m sz) cands"
    using choose_js_installed_stats[OF assms a] by simp
  have q: "\<forall>off\<in>set (offsets stats). off \<noteq> - 1"
  proof
    fix off assume "off \<in> set (offsets stats)"
    then obtain name where name: "name \<in> set (map fst m)" "qualifies m sz name"
        "off = offset_of m sz name"
      using o assms(3) by auto
    then obtain xs where xs: "map_of m name = Some xs"
      by (auto simp: qualifies_def split: option.splits)
    show "off \<noteq> - 1"
      using lower_bound_qualifies[OF xs installed_sorted[OF assms(1) xs], of sz] name by auto
  qed
  show "\<exists>name xs sh. map_of m name = Some xs \<and> sh \<in> set xs \<and>
          datacenter sh = hr_datacenter h \<and> manta_storage_id sh = hr_manta_storage_id h \<and>
          sz \<le> availableMB sh"
    by (rule picked_has_capacity[OF assms(1) p al q])
qed

text \<open>One datacenter with one shark of 10 MB, a request of 5 MB and one replica.\<close>

lemma choose_capacity_single_datacenter_example:
  "installed single_dc_client (request (Some 1) (Some 5242880))
     [(''dc1'', [\<lparr>manta_storage_id = ''a'', datacenter = ''dc1'', availableMB = 10\<rparr>])] \<and>
   choose_size single_dc_client (request (Some 1) (Some 5242880)) = Some 5 \<and>
   choose_js single_dc_client (request (Some 1) (Some 5242880)) [] =
     Some (Callback_ok [[\<lparr>hr_datacenter = ''dc1'', hr_manta_storage_id = ''a''\<rparr>]]
             \<lparr>dcsInUse = [''dc1''], offsets = [0]\<rparr>, single_dc_client\<lparr>dcIndex := 0\<rparr>) \<and>
   (\<exists>name xs sh.
      map_of [(''dc1'', [\<lparr>manta_storage_id = ''a'', datacenter = ''dc1'', availableMB = 10\<rparr>])]
        name = Some xs \<and> sh \<in> set xs \<and> datacenter sh = ''dc1'' \<and>
      manta_storage_id sh = ''a'' \<and> 5 \<le> availableMB sh)"
proof -
  let ?m = "[(''dc1'', [\<lparr>manta_storage_id = ''a'', datacenter = ''dc1'', availableMB = 10\<rparr>])]"
  let ?h = "\<lparr>hr_datacenter = ''dc1'', hr_manta_storage_id = ''a''\<rparr>"
  have i: "installed single_dc_client (request (Some 1) (Some 5242880)) ?m"
    by (simp add: installed_def request_map_def request_names_def single_dc_client_def
        sortAndStoreDcs_def request_def sort_js_def)
  have sz: "choose_size single_dc_client (request (Some 1) (Some 5242880)) = Some 5"
    by code_simp
  have cands: "[''dc1''] = filter (qualifies ?m 5) (map fst ?m)"
    by (simp add: qualifies_def)
  have e: "choose_js single_dc_client (request (Some 1) (Some 5242880)) [] =
     Some (Callback_ok [[?h]] \<lparr>dcsInUse = [''dc1''], offsets = [0]\<rparr>,
           single_dc_client\<lparr>dcIndex := 0\<rparr>)"
    by code_simp
  have "\<exists>name xs sh. map_of ?m name = Some xs \<and> sh \<in> set xs \<and>
          datacenter sh = hr_datacenter ?h \<and> manta_storage_id sh = hr_manta_storage_id ?h \<and>
          5 \<le> availableMB sh"
    using choose_capacity_with_aligned_offsets[OF i sz cands, of "[]" "[[?h]]"
        "\<lparr>dcsInUse = [''dc1''], offsets = [0]\<rparr>" "single_dc_client\<lparr>dcIndex := 0\<rparr>"] e
    by simp
  then show ?thesis using i sz e by simp
qed

text \<open>
  Two datacenters with the lower bounds 1 and 0 for 50 MB, and a run in which the shuffle
  leaves the two names in place (the first \<open>Math.random()\<close> of the call gives 0.5, the
  later ones 0): the
  set is made of \<open>a2\<close> and \<open>b1\<close>, which have 100 MB each.
\<close>

lemma offsets_aligned_example:
  "shuffle [''dc1'', ''dc2''] [1] = ([''dc1'', ''dc2''], []) \<and>
   choose_js example_client (request None (Some 52428800)) [1] =
     Some (Callback_ok
             [[\<lparr>hr_datacenter = ''dc1'', hr_manta_storage_id = ''a2''\<rparr>,
               \<lparr>hr_datacenter = ''dc2'', hr_manta_storage_id = ''b1''\<rparr>]]
             \<lparr>dcsInUse = [''dc1'', ''dc2''], offsets = [1, 0]\<rparr>,
           example_client\<lparr>dcIndex := 0\<rparr>)"
  by code_simp

text \<open>
  A qualifying shark alone does not make the call succeed, and this is as the code means
  it: with one candidate datacenter, the default of two replicas and \<open>multiDC\<close>, the
  check for enough datacenters ends the call with a NotEnoughSpaceError.
\<close>

lemma qualifying_node_without_success:
  "qualifies [(''dc1'', [\<lparr>manta_storage_id = ''a'', datacenter = ''dc1'', availableMB = 10\<rparr>])]
     5 ''dc1'' \<and>
   dcSharkMap single_dc_client =
     Some [(''dc1'', [\<lparr>manta_storage_id = ''a'', datacenter = ''dc1'', availableMB = 10\<rparr>])] \<and>
   choose_js single_dc_client (request None (Some 5242880)) [] =
     Some (Callback_err
             (NotEnoughSpaceError (Some 5)
                ''2 copies requested, but only 1 DC(s) have sufficient space'')
             \<lparr>dcsInUse = [''dc1''], offsets = [0]\<rparr>, single_dc_client)"
  by code_simp

text \<open>
  Claim C1. The claim is that, whenever some datacenter of the installed snapshot has a
  shark with \<open>availableMB \<ge>\<close> the requested size, every member of every replica set that
  \<open>choose\<close> returns has that much space. The code does not keep to it, nor to its own
  description of \<open>choose\<close> (a view of each datacenter that holds the servers with that
  amount of storage and larger, from which the sharks are picked): \<open>dcs = shuffle(dcs)\<close>
  permutes the names of the candidate datacenters and leaves \<open>offsets\<close> as the filter
  built it, so \<open>host()\<close> reads the datacenter \<open>dcs[ndx]\<close> from \<open>offsets[ndx]\<close>, the
  lower bound of another datacenter.

  The failing call: the standalone client of the test suite with the topology
  \<open>dc1 = [a1 (1 MB), a2 (100 MB)]\<close>, \<open>dc2 = [b1 (100 MB), b2 (100 MB)]\<close>, a request of
  52428800 bytes (50 MB) with the default of two replicas, and \<open>Math.random\<close> giving 0
  throughout. Both datacenters qualify; the filter gives the names \<open>[dc1, dc2]\<close> with the
  offsets \<open>[1, 0]\<close>; the shuffle swaps the names; \<open>host()\<close> reads \<open>dc2\<close> from index 1
  and \<open>dc1\<close> from index 0. The call succeeds with the one set \<open>[b2, a1]\<close>, and \<open>a1\<close>
  has 1 MB: no shark of that name has 50 MB.
\<close>

theorem choose_returns_shark_below_requested_size:
  "dcSharkMap example_client =
     Some [(''dc1'', [\<lparr>manta_storage_id = ''a1'', datacenter = ''dc1'', availableMB = 1\<rparr>,
                 \<lparr>manta_storage_id = ''a2'', datacenter = ''dc1'', availableMB = 100\<rparr>]),
       (''dc2'', [\<lparr>manta_storage_id = ''b1'', datacenter = ''dc2'', availableMB = 100\<rparr>,
                 \<lparr>manta_storage_id = ''b2'', datacenter = ''dc2'', availableMB = 100\<rparr>])] \<and>
   datacenters example_client = Some [''dc1'', ''dc2''] \<and>
   choose_size example_client (request None (Some 52428800)) = Some 50 \<and>
   qualifies [(''dc1'', [\<lparr>manta_storage_id = ''a1'', datacenter = ''dc1'', availableMB = 1\<rparr>,
                 \<lparr>manta_storage_id = ''a2'', datacenter = ''dc1'', availableMB = 100\<rparr>]),
       (''dc2'', [\<lparr>manta_storage_id = ''b1'', datacenter = ''dc2'', availableMB = 100\<rparr>,
                 \<lparr>manta_storage_id = ''b2'', datacenter = ''dc2'', availableMB = 100\<rparr>])]
     50 ''dc1'' \<and>
   forEach_filterDatacenters (dcSharkMap example_client) (Some 50) [''dc1'', ''dc2''] ([], []) =
     Inr ([''dc1'', ''dc2''], [1, 0]) \<and>
   shuffle [''dc1'', ''dc2''] [] = ([''dc2'', ''dc1''], []) \<and>
   choose_js example_client (request None (Some 52428800)) [] =
     Some (Callback_ok
             [[\<lparr>hr_datacenter = ''dc2'', hr_manta_storage_id = ''b2''\<rparr>,
               \<lparr>hr_datacenter = ''dc1'', hr_manta_storage_id = ''a1''\<rparr>]]
             \<lparr>dcsInUse = [''dc2'', ''dc1''], offsets = [1, 0]\<rparr>,
           example_client\<lparr>dcIndex := 0\<rparr>) \<and>
   \<not> (\<exists>name xs sh.
        map_of [(''dc1'', [\<lparr>manta_storage_id = ''a1'', datacenter = ''dc1'', availableMB = 1\<rparr>,
                 \<lparr>manta_storage_id = ''a2'', datacenter = ''dc1'', availableMB = 100\<rparr>]),
       (''dc2'', [\<lparr>manta_storage_id = ''b1'', datacenter = ''dc2'', availableMB = 100\<rparr>,
                 \<lparr>manta_storage_id = ''b2'', datacenter = ''dc2'', availableMB = 100\<rparr>])]
          name = Some xs \<and>
        sh \<in> set xs \<and> manta_storage_id sh = ''a1'' \<and> 50 \<le> availableMB sh)"
proof -
  have "\<not> (\<exists>name xs sh.
        map_of [(''dc1'', [\<lparr>manta_storage_id = ''a1'', datacenter = ''dc1'', availableMB = 1\<rparr>,
                 \<lparr>manta_storage_id = ''a2'', datacenter = ''dc1'', availableMB = 100\<rparr>]),
       (''dc2'', [\<lparr>manta_storage_id = ''b1'', datacenter = ''dc2'', availableMB = 100\<rparr>,
                 \<lparr>manta_storage_id = ''b2'', datacenter = ''dc2'', availableMB = 100\<rparr>])]
          name = Some xs \<and>
        sh \<in> set xs \<and> manta_storage_id sh = ''a1'' \<and> 50 \<le> availableMB sh)"
    by (auto split: if_splits)
  moreover have "dcSharkMap example_client =
     Some [(''dc1'', [\<lparr>manta_storage_id = ''a1'', datacenter = ''dc1'', availableMB = 1\<rparr>,
                 \<lparr>manta_storage_id = ''a2'', datacenter = ''dc1'', availableMB = 100\<rparr>]),
       (''dc2'', [\<lparr>manta_storage_id = ''b1'', datacenter = ''dc2'', availableMB = 100\<rparr>,
                 \<lparr>manta_storage_id = ''b2'', datacenter = ''dc2'', availableMB = 100\<rparr>])]"
    by code_simp
  moreover have "datacenters example_client = Some [''dc1'', ''dc2'']"
    by code_simp
  moreover have "choose_size example_client (request None (Some 52428800)) = Some 50"
    by code_simp
  moreover have "qualifies [(''dc1'', [\<lparr>manta_storage_id = ''a1'', datacenter = ''dc1'', availableMB = 1\<rparr>,
                 \<lparr>manta_storage_id = ''a2'', datacenter = ''dc1'', availableMB = 100\<rparr>]),
       (''dc2'', [\<lparr>manta_storage_id = ''b1'', datacenter = ''dc2'', availableMB = 100\<rparr>,
                 \<lparr>manta_storage_id = ''b2'', datacenter = ''dc2'', availableMB = 100\<rparr>])]
     50 ''dc1''"
    by code_simp
  moreover have "forEach_filterDatacenters (dcSharkMap example_client) (Some 50)
       [''dc1'', ''dc2''] ([], []) = Inr ([''dc1'', ''dc2''], [1, 0])"
    by code_simp
  moreover have "shuffle [''dc1'', ''dc2''] [] = ([''dc2'', ''dc1''], [])"
    by code_simp
  moreover have "choose_js example_client (request None (Some 52428800)) [] =
     Some (Callback_ok
             [[\<lparr>hr_datacenter = ''dc2'', hr_manta_storage_id = ''b2''\<rparr>,
               \<lparr>hr_datacenter = ''dc1'', hr_manta_storage_id = ''a1''\<rparr>]]
             \<lparr>dcsInUse = [''dc2'', ''dc1''], offsets = [1, 0]\<rparr>,
           example_client\<lparr>dcIndex := 0\<rparr>)"
    by code_simp
  ultimately show ?thesis by blast
qed

text \<open>
  The same slip where the offset of another datacenter lies beyond the array: \<open>dc[s]\<close>
  is \<open>undefined\<close> and \<open>host()\<close> throws. The filter gives the offsets 0 and 2 for
  \<open>dc1\<close> and \<open>dc2\<close>, the shuffle swaps the two names, and the one shark of \<open>dc1\<close>
  is looked for from index 2.
\<close>

lemma offsets_not_shuffled_throws:
  "choose_js skewed_client (request None (Some 52428800)) [] =
     Some (Throws TypeError, skewed_client\<lparr>dcIndex := 1\<rparr>) \<and>
   forEach_filterDatacenters (dcSharkMap skewed_client) (Some 50) [''dc1'', ''dc2''] ([], []) =
     Inr ([''dc1'', ''dc2''], [0, 2]) \<and>
   shuffle [''dc1'', ''dc2''] [] = ([''dc2'', ''dc1''], [])"
  by code_simp

end
